theory Spec2Isabelle
  imports Main
begin

section \<open>Genealogical graph consistency engine (persons.service.ts)\<close>

text \<open>
  A shallow embedding of \<^verbatim>\<open>PersonsService\<close> (the later of the two versions in
  \<^verbatim>\<open>src/persons/persons.service.ts\<close>, the one with the cycle detector and the
  connectivity guard), of the entity \<^verbatim>\<open>Person\<close> and of the three request payloads.
  The repository is a table of rows with an auto-increment counter; every exception of the
  service is a value of \<open>error\<close>; the service's methods return their result together with
  the table they leave behind. What JavaScript leaves to the engine and to the server's time
  zone is a parameter, \<open>engine\<close>, of the date checks and of the methods that run them.
\<close>

subsection \<open>JavaScript values\<close>

text \<open>
  Identifiers are JavaScript numbers; the model takes them as integers. The numbers of the
  date checks (the result of \<^verbatim>\<open>parseInt\<close>, a sum or a difference of years, the time value
  of a \<^verbatim>\<open>Date\<close>) are IEEE 754 doubles: \<open>Fin n\<close> is the double of integral value \<open>n\<close>,
  \<open>PosInf\<close> and \<open>NegInf\<close> are the infinities and \<open>NaN\<close> is \<^verbatim>\<open>NaN\<close>. No other double
  arises in the service: its arithmetic is the sum and the difference of such values.
\<close>

datatype jsnum = NaN | Fin int | PosInf | NegInf

text \<open>The number of bits of a positive integer.\<close>

function bitLength :: "int \<Rightarrow> nat" where
  "bitLength n = (if n \<le> 0 then 0 else Suc (bitLength (n div 2)))"
  by pat_completeness auto

termination
  by (relation "measure nat") auto

declare bitLength.simps [simp del]

text \<open>
  The double nearest to an integer (round to nearest, ties to even, overflow to an
  infinity): integers up to \<open>2 ^ 53\<close> in magnitude are doubles; above, the 53 leading bits
  \<open>q\<close> are kept and rounded on the \<open>e\<close> bits dropped.
\<close>

definition toDouble :: "int \<Rightarrow> jsnum" where
  "toDouble n =
     (let m = \<bar>n\<bar>
      in if m \<le> 2 ^ 53 then Fin n
         else
           (let e = bitLength m - 53;
                q = m div 2 ^ e;
                r = m mod 2 ^ e;
                q' = (if 2 * r > 2 ^ e \<or> (2 * r = 2 ^ e \<and> odd q) then q + 1 else q)
            in if q' * 2 ^ e \<ge> 2 ^ 1024 then (if n < 0 then NegInf else PosInf)
               else Fin ((if n < 0 then - 1 else 1) * (q' * 2 ^ e))))"

text \<open>The comparisons: every comparison with \<^verbatim>\<open>NaN\<close> is false.\<close>

fun jsLt :: "jsnum \<Rightarrow> jsnum \<Rightarrow> bool" where
  "jsLt (Fin a) (Fin b) = (a < b)"
| "jsLt (Fin a) PosInf = True"
| "jsLt NegInf (Fin b) = True"
| "jsLt NegInf PosInf = True"
| "jsLt _ _ = False"

fun jsGt :: "jsnum \<Rightarrow> jsnum \<Rightarrow> bool" where
  "jsGt (Fin a) (Fin b) = (a > b)"
| "jsGt PosInf (Fin b) = True"
| "jsGt (Fin a) NegInf = True"
| "jsGt PosInf NegInf = True"
| "jsGt _ _ = False"

fun jsGe :: "jsnum \<Rightarrow> jsnum \<Rightarrow> bool" where
  "jsGe (Fin a) (Fin b) = (a \<ge> b)"
| "jsGe PosInf (Fin b) = True"
| "jsGe (Fin a) NegInf = True"
| "jsGe PosInf NegInf = True"
| "jsGe PosInf PosInf = True"
| "jsGe NegInf NegInf = True"
| "jsGe _ _ = False"

text \<open>The difference and the sum, rounded to a double; \<^verbatim>\<open>Infinity - Infinity\<close> is
  \<^verbatim>\<open>NaN\<close>.\<close>

fun jsSub :: "jsnum \<Rightarrow> jsnum \<Rightarrow> jsnum" where
  "jsSub (Fin a) (Fin b) = toDouble (a - b)"
| "jsSub NaN _ = NaN"
| "jsSub _ NaN = NaN"
| "jsSub PosInf PosInf = NaN"
| "jsSub NegInf NegInf = NaN"
| "jsSub PosInf _ = PosInf"
| "jsSub NegInf _ = NegInf"
| "jsSub (Fin a) PosInf = NegInf"
| "jsSub (Fin a) NegInf = PosInf"

fun jsAdd :: "jsnum \<Rightarrow> jsnum \<Rightarrow> jsnum" where
  "jsAdd (Fin a) (Fin b) = toDouble (a + b)"
| "jsAdd NaN _ = NaN"
| "jsAdd _ NaN = NaN"
| "jsAdd PosInf NegInf = NaN"
| "jsAdd NegInf PosInf = NaN"
| "jsAdd PosInf _ = PosInf"
| "jsAdd NegInf _ = NegInf"
| "jsAdd (Fin a) PosInf = PosInf"
| "jsAdd (Fin a) NegInf = NegInf"

text \<open>Truthiness of a number of the date checks (\<^verbatim>\<open>NaN\<close> and \<^verbatim>\<open>0\<close> are falsy), of an
  optional identifier (\<^verbatim>\<open>undefined\<close>, \<^verbatim>\<open>null\<close> and \<^verbatim>\<open>0\<close> are falsy) and of an optional
  string (the empty string is falsy).\<close>

fun truthyJs :: "jsnum \<Rightarrow> bool" where
  "truthyJs NaN = False"
| "truthyJs (Fin n) = (n \<noteq> 0)"
| "truthyJs _ = True"

fun truthyNum :: "int option \<Rightarrow> bool" where
  "truthyNum None = False"
| "truthyNum (Some n) = (n \<noteq> 0)"

fun truthyStr :: "string option \<Rightarrow> bool" where
  "truthyStr None = False"
| "truthyStr (Some s) = (s \<noteq> [])"

text \<open>A field of the update payload that may be left out, sent as \<^verbatim>\<open>null\<close>, or sent
  with a value (\<^verbatim>\<open>fatherId?: number | null\<close>).\<close>

datatype 'a nullable = Undefined | Null | Value 'a

fun truthyNullable :: "int nullable \<Rightarrow> bool" where
  "truthyNullable (Value n) = (n \<noteq> 0)"
| "truthyNullable _ = False"

text \<open>\<^verbatim>\<open>a ?? b\<close>: \<open>b\<close> when \<open>a\<close> is \<^verbatim>\<open>null\<close> or \<^verbatim>\<open>undefined\<close>.\<close>

fun coalesce :: "'a nullable \<Rightarrow> 'a option \<Rightarrow> 'a option" where
  "coalesce (Value v) _ = Some v"
| "coalesce _ b = b"

text \<open>\<^verbatim>\<open>Object.assign\<close> on one key: an absent key keeps the old value.\<close>

fun assign :: "'a nullable \<Rightarrow> 'a option \<Rightarrow> 'a option" where
  "assign Undefined old = old"
| "assign Null old = None"
| "assign (Value v) old = Some v"

subsection \<open>Date precision utility\<close>

text \<open>\<^verbatim>\<open>s.split('-')\<close>: never empty, \<^verbatim>\<open>"".split('-')\<close> is \<^verbatim>\<open>[""]\<close>.\<close>

fun splitDash :: "string \<Rightarrow> string list" where
  "splitDash [] = [[]]"
| "splitDash (c # cs) =
     (if c = CHR ''-'' then [] # splitDash cs
      else (case splitDash cs of w # ws \<Rightarrow> (c # w) # ws | [] \<Rightarrow> [[c]]))"

definition isDigit :: "char \<Rightarrow> bool" where
  "isDigit c = (48 \<le> (of_char c :: nat) \<and> (of_char c :: nat) \<le> 57)"

text \<open>
  What the source leaves to the JavaScript engine and to the server's clock is a parameter
  of the model, so that every property below holds of every engine and every time zone.
  ECMAScript fixes \<^verbatim>\<open>parseInt\<close> on a string of up to 20 significant digits and the time
  value of a calendar date written \<^verbatim>\<open>YYYY-MM-DD\<close> (midnight UTC). It leaves to the engine
  the digits of a longer numeral and the reading of any other date string; the set of
  non-ASCII white space follows the engine's version of Unicode; and
  \<^verbatim>\<open>setMonth(getMonth() + 9)\<close> works in the local time of the server.

  \<^item> \<open>parseIntOf str\<close> is \<^verbatim>\<open>parseInt(str, 10)\<close> for a string that starts, after its ASCII
    white space, with a non-ASCII byte, or whose numeral has more than 20 significant digits;
  \<^item> \<open>dateOf str\<close> is the time value of \<^verbatim>\<open>new Date(str)\<close> for a string that is not a
    calendar date in the form \<^verbatim>\<open>YYYY-MM-DD\<close>;
  \<^item> \<open>setMonthPlus9 t\<close> is the time value of a \<^verbatim>\<open>Date\<close> of time value \<open>t\<close> after
    \<^verbatim>\<open>setMonth(getMonth() + 9)\<close>.
\<close>

record engine =
  parseIntOf :: "string \<Rightarrow> jsnum"
  dateOf :: "string \<Rightarrow> jsnum"
  setMonthPlus9 :: "int \<Rightarrow> jsnum"

definition isAsciiWhite :: "char \<Rightarrow> bool" where
  "isAsciiWhite c = ((of_char c :: nat) \<in> {9, 10, 11, 12, 13, 32})"

fun digitsVal :: "int \<Rightarrow> string \<Rightarrow> int" where
  "digitsVal acc [] = acc"
| "digitsVal acc (c # cs) = digitsVal (10 * acc + ((of_char c :: int) - 48)) cs"

text \<open>
  \<^verbatim>\<open>parseInt(str, 10)\<close>. A \<open>string\<close> is the list of the bytes of the UTF-8 form of the
  JavaScript string (\<^verbatim>\<open>split('-')\<close>, the digits and the empty string read the same on both).
  Leading white space is skipped, one sign is read, then the longest run of decimal digits;
  no digit gives \<^verbatim>\<open>NaN\<close>; the value is rounded to a double. The two cases that depend on
  the engine go to \<open>parseIntOf\<close>.
\<close>

definition parseInt :: "engine \<Rightarrow> string \<Rightarrow> jsnum" where
  "parseInt eng str =
     (let t = dropWhile isAsciiWhite str;
          neg = (case t of c # _ \<Rightarrow> c = CHR ''-'' | [] \<Rightarrow> False);
          u = (case t of c # r \<Rightarrow> if c = CHR ''-'' \<or> c = CHR ''+'' then r else t | [] \<Rightarrow> []);
          ds = takeWhile isDigit u;
          significant = dropWhile (\<lambda>c. c = CHR ''0'') ds
      in if (case t of c # _ \<Rightarrow> (of_char c :: nat) \<ge> 128 | [] \<Rightarrow> False)
              \<or> length significant > 20
         then parseIntOf eng str
         else if ds = [] then NaN
         else toDouble ((if neg then - 1 else 1) * digitsVal 0 ds))"

definition extractYear :: "engine \<Rightarrow> string \<Rightarrow> jsnum" where
  "extractYear eng dateString =
     (case splitDash dateString of y # _ \<Rightarrow> parseInt eng y | [] \<Rightarrow> NaN)"

definition isFullDate :: "string \<Rightarrow> bool" where
  "isFullDate dateString = (length (splitDash dateString) = 3)"

definition isYearOnly :: "string \<Rightarrow> bool" where
  "isYearOnly dateString = (length (splitDash dateString) = 1)"

text \<open>
  \<^verbatim>\<open>new Date(s)\<close>: a calendar date in the form \<^verbatim>\<open>YYYY-MM-DD\<close> is midnight UTC of that
  day, and its time value the number of milliseconds since 1970-01-01; the reading of any
  other string (a day that the month does not have, a part that is not zero-padded, more
  text) is the engine's, \<open>dateOf\<close>.
\<close>

definition daysFromCivil :: "int \<Rightarrow> int \<Rightarrow> int \<Rightarrow> int" where
  "daysFromCivil y m d =
     (let y' = (if m \<le> 2 then y - 1 else y);
          era = y' div 400;
          yoe = y' - era * 400;
          doy = (153 * (if m > 2 then m - 3 else m + 9) + 2) div 5 + d - 1;
          doe = yoe * 365 + yoe div 4 - yoe div 100 + doy
      in era * 146097 + doe - 719468)"

definition civilFromDays :: "int \<Rightarrow> int \<times> int \<times> int" where
  "civilFromDays z =
     (let z' = z + 719468;
          era = z' div 146097;
          doe = z' - era * 146097;
          yoe = (doe - doe div 1460 + doe div 36524 - doe div 146096) div 365;
          doy = doe - (365 * yoe + yoe div 4 - yoe div 100);
          mp = (5 * doy + 2) div 153;
          d = doy - (153 * mp + 2) div 5 + 1;
          m = (if mp < 10 then mp + 3 else mp - 9);
          y = yoe + era * 400 + (if m \<le> 2 then 1 else 0)
      in (y, m, d))"

definition daysInMonth :: "int \<Rightarrow> int \<Rightarrow> int" where
  "daysInMonth y m =
     (if m = 2 then (if y mod 4 = 0 \<and> (y mod 100 \<noteq> 0 \<or> y mod 400 = 0) then 29 else 28)
      else if m = 4 \<or> m = 6 \<or> m = 9 \<or> m = 11 then 30
      else 31)"

definition msPerDay :: int where
  "msPerDay = 86400000"

definition newDate :: "engine \<Rightarrow> string \<Rightarrow> jsnum" where
  "newDate eng s =
     (case splitDash s of
        [ys, ms, ds] \<Rightarrow>
          if length ys = 4 \<and> length ms = 2 \<and> length ds = 2
             \<and> list_all isDigit ys \<and> list_all isDigit ms \<and> list_all isDigit ds
          then (let y = digitsVal 0 ys; m = digitsVal 0 ms; d = digitsVal 0 ds
                in if 1 \<le> m \<and> m \<le> 12 \<and> 1 \<le> d \<and> d \<le> daysInMonth y m
                   then Fin (msPerDay * daysFromCivil y m d) else dateOf eng s)
          else dateOf eng s
      | _ \<Rightarrow> dateOf eng s)"

text \<open>\<^verbatim>\<open>d.setMonth(d.getMonth() + 9)\<close> on a copy of the date; an \<^verbatim>\<open>Invalid Date\<close>
  stays one.\<close>

definition plusNineMonths :: "engine \<Rightarrow> jsnum \<Rightarrow> jsnum" where
  "plusNineMonths eng t = (case t of Fin z \<Rightarrow> setMonthPlus9 eng z | _ \<Rightarrow> NaN)"

text \<open>The same step on a clock set to UTC, for the examples.\<close>

definition utcPlusNineMonths :: "int \<Rightarrow> jsnum" where
  "utcPlusNineMonths t =
     (case civilFromDays (t div msPerDay) of
        (y, m, d) \<Rightarrow>
          Fin (msPerDay * (daysFromCivil (y + (m + 8) div 12) ((m + 8) mod 12 + 1) 1 + d - 1)
               + t mod msPerDay))"

subsection \<open>Data model\<close>

datatype gender = Male | Female

datatype role = Father | Mother

text \<open>
  The service raises \<^verbatim>\<open>NotFoundException\<close> and \<^verbatim>\<open>BadRequestException\<close> with a
  message; one constructor stands for each kind of message:
  \<^item> \<open>NotFound\<close>: "... with ID n not found", "No progenitor exists in the family tree";
  \<^item> \<open>InvalidRole r\<close>: "... is not male and cannot be a father" (and the mother's, the
    linking parent's and the promoted ancestor's counterparts);
  \<^item> \<open>ImplausibleAge r\<close>: "... cannot be born in or after the same year as child" and
    "... must be at least 14 years old when child is born";
  \<^item> \<open>ImplausibleDeathWindow r\<close>: "Father died ..., too early for child born ...",
    "Mother died ..., before child was born ...", "... must be alive ...";
  \<^item> \<open>DeathBeforeBirth\<close>: "Death date cannot be before birth date";
  \<^item> \<open>CycleDetected\<close>: "... it would create a cycle";
  \<^item> \<open>DisconnectedPerson\<close>: "A person must have at least one parent or child to be
    connected to the tree";
  \<^item> \<open>IdentityMismatch\<close>: "Person ID n is not the current progenitor ...";
  \<^item> \<open>HasDependents\<close>: "Cannot delete person with ID n. This person has k child(ren) ...";
  \<^item> \<open>SelfParent\<close>: "A person cannot be their own parent";
  \<^item> \<open>ChildrenNotFound\<close>: "One or more children not found";
  \<^item> \<open>ChildHasParent\<close>: "... already has a father/mother";
  \<^item> \<open>ChildrenRequired\<close>: "childrenIds is required";
  \<^item> \<open>StoreFailure\<close>: an error raised by the database inside the promotion's transaction.
\<close>

datatype error =
    NotFound
  | InvalidRole role
  | ImplausibleAge role
  | ImplausibleDeathWindow role
  | DeathBeforeBirth
  | CycleDetected
  | DisconnectedPerson
  | IdentityMismatch
  | HasDependents
  | SelfParent
  | ChildrenNotFound
  | ChildHasParent
  | ChildrenRequired
  | StoreFailure

text \<open>
  The entity, and the three payloads at their declared TypeScript types: an optional field
  (\<^verbatim>\<open>birthDate?: string\<close>) is an \<open>option\<close>, \<open>None\<close> when the key is left out. The
  fields of the payloads carry a prefix (\<open>c_\<close>, \<open>u_\<close>, \<open>a_\<close>) since they share their
  names with the entity's; \<open>personId\<close> is the entity's \<^verbatim>\<open>id\<close>.
\<close>

record Person =
  personId :: int
  firstName :: string
  lastName :: string
  gender :: gender
  birthDate :: "string option"
  deathDate :: "string option"
  trivia :: "string option"
  progenitor :: bool
  fatherId :: "int option"
  motherId :: "int option"

record CreatePersonDto =
  c_firstName :: string
  c_lastName :: string
  c_gender :: gender
  c_progenitor :: "bool option"
  c_birthDate :: "string option"
  c_deathDate :: "string option"
  c_trivia :: "string option"
  c_fatherId :: "int option"
  c_motherId :: "int option"
  c_childrenIds :: "int list option"

record UpdatePersonDto =
  u_firstName :: "string option"
  u_lastName :: "string option"
  u_progenitor :: "bool option"
  u_birthDate :: "string option"
  u_deathDate :: "string option"
  u_trivia :: "string option"
  u_fatherId :: "int nullable"
  u_motherId :: "int nullable"

record PromoteAncestorDto =
  a_firstName :: string
  a_lastName :: string
  a_gender :: gender
  a_birthDate :: "string option"
  a_deathDate :: "string option"
  a_trivia :: "string option"
  a_currentProgenitorId :: int
  a_relationship :: role

subsection \<open>The repository\<close>

text \<open>
  The table of persons in insertion order, and the next value of the generated primary key.
  The version of the service under verification issues no tenant filter: the table is the
  one tree it works on.
\<close>

record store =
  rows :: "Person list"
  nextId :: int

definition findOneBy :: "store \<Rightarrow> int \<Rightarrow> Person option" where
  "findOneBy s i = find (\<lambda>p. personId p = i) (rows s)"

definition findBy :: "store \<Rightarrow> int list \<Rightarrow> Person list" where
  "findBy s ids = filter (\<lambda>p. personId p \<in> set ids) (rows s)"

definition countRows :: "store \<Rightarrow> nat" where
  "countRows s = length (rows s)"

text \<open>\<^verbatim>\<open>save\<close> of an entity without id: an insert under the next generated id.\<close>

definition saveNew :: "Person \<Rightarrow> store \<Rightarrow> Person \<times> store" where
  "saveNew p s =
     (let p' = p\<lparr>personId := nextId s\<rparr>
      in (p', \<lparr>rows = rows s @ [p'], nextId = nextId s + 1\<rparr>))"

text \<open>\<^verbatim>\<open>save\<close> of a loaded entity: the row of that id is overwritten.\<close>

definition saveExisting :: "Person \<Rightarrow> store \<Rightarrow> store" where
  "saveExisting p s = s\<lparr>rows := map (\<lambda>r. if personId r = personId p then p else r) (rows s)\<rparr>"

text \<open>\<^verbatim>\<open>update(id, partial)\<close>: a partial update of the row of that id.\<close>

definition updateById :: "int \<Rightarrow> (Person \<Rightarrow> Person) \<Rightarrow> store \<Rightarrow> store" where
  "updateById i f s = s\<lparr>rows := map (\<lambda>r. if personId r = i then f r else r) (rows s)\<rparr>"

definition removeRow :: "Person \<Rightarrow> store \<Rightarrow> store" where
  "removeRow p s = s\<lparr>rows := filter (\<lambda>r. personId r \<noteq> personId p) (rows s)\<rparr>"

subsection \<open>Sequencing of checks\<close>

text \<open>A check returns \<open>Inl\<close> of the exception it throws, or \<open>Inr ()\<close>. \<open>andThen\<close> runs two
  checks in order; \<open>whenStr\<close> and \<open>whenNum\<close> are \<^verbatim>\<open>if (x) { ... }\<close> on an optional
  string and an optional number.\<close>

fun andThen :: "error + unit \<Rightarrow> error + unit \<Rightarrow> error + unit" where
  "andThen (Inl e) _ = Inl e"
| "andThen (Inr _) r = r"

fun whenStr :: "string option \<Rightarrow> (string \<Rightarrow> error + unit) \<Rightarrow> error + unit" where
  "whenStr None f = Inr ()"
| "whenStr (Some x) f = (if x = [] then Inr () else f x)"

fun whenNum :: "int option \<Rightarrow> (int \<Rightarrow> error + unit) \<Rightarrow> error + unit" where
  "whenNum None f = Inr ()"
| "whenNum (Some n) f = (if n = 0 then Inr () else f n)"

subsection \<open>Relationship validator\<close>

definition validateParents :: "store \<Rightarrow> int option \<Rightarrow> int option \<Rightarrow> error + unit" where
  "validateParents s fid mid =
     andThen
       (whenNum fid (\<lambda>f.
          case findOneBy s f of
            None \<Rightarrow> Inl NotFound
          | Some father \<Rightarrow> if gender father \<noteq> Male then Inl (InvalidRole Father) else Inr ()))
       (whenNum mid (\<lambda>m.
          case findOneBy s m of
            None \<Rightarrow> Inl NotFound
          | Some mother \<Rightarrow> if gender mother \<noteq> Female then Inl (InvalidRole Mother) else Inr ()))"

subsection \<open>Temporal consistency validator\<close>

text \<open>The block on a parent's birth date, written twice in the source (father, mother)
  with the same comparisons.\<close>

definition parentBirthCheck :: "engine \<Rightarrow> role \<Rightarrow> string \<Rightarrow> string \<Rightarrow> error + unit" where
  "parentBirthCheck eng r childBirthDate parentBirthDate =
     (let childBirthYear = extractYear eng childBirthDate;
          parentBirthYear = extractYear eng parentBirthDate
      in if jsGe parentBirthYear childBirthYear then Inl (ImplausibleAge r)
         else if jsLt (jsSub childBirthYear parentBirthYear) (Fin 14) then Inl (ImplausibleAge r)
         else Inr ())"

definition fatherDeathCheck :: "engine \<Rightarrow> string \<Rightarrow> string \<Rightarrow> error + unit" where
  "fatherDeathCheck eng childBirthDate fatherDeathDate =
     (let childBirthYear = extractYear eng childBirthDate;
          fatherDeathYear = extractYear eng fatherDeathDate
      in if isYearOnly fatherDeathDate then
           (if jsGt childBirthYear (jsAdd fatherDeathYear (Fin 1))
            then Inl (ImplausibleDeathWindow Father) else Inr ())
         else if isFullDate fatherDeathDate \<and> isFullDate childBirthDate then
           (if jsGt (newDate eng childBirthDate) (plusNineMonths eng (newDate eng fatherDeathDate))
            then Inl (ImplausibleDeathWindow Father) else Inr ())
         else
           (if jsGt childBirthYear (jsAdd fatherDeathYear (Fin 1))
            then Inl (ImplausibleDeathWindow Father) else Inr ()))"

definition motherDeathCheck :: "engine \<Rightarrow> string \<Rightarrow> string \<Rightarrow> error + unit" where
  "motherDeathCheck eng childBirthDate motherDeathDate =
     (let childBirthYear = extractYear eng childBirthDate;
          motherDeathYear = extractYear eng motherDeathDate
      in if isYearOnly motherDeathDate then
           (if jsGt childBirthYear motherDeathYear
            then Inl (ImplausibleDeathWindow Mother) else Inr ())
         else if isFullDate motherDeathDate \<and> isFullDate childBirthDate then
           (if jsLt (newDate eng motherDeathDate) (newDate eng childBirthDate)
            then Inl (ImplausibleDeathWindow Mother) else Inr ())
         else
           (if jsGt childBirthYear motherDeathYear
            then Inl (ImplausibleDeathWindow Mother) else Inr ()))"

definition fatherChecks :: "engine \<Rightarrow> store \<Rightarrow> string \<Rightarrow> int option \<Rightarrow> error + unit" where
  "fatherChecks eng s childBirthDate fid =
     whenNum fid (\<lambda>f.
       case findOneBy s f of
         None \<Rightarrow> Inr ()
       | Some father \<Rightarrow>
           andThen (whenStr (birthDate father) (parentBirthCheck eng Father childBirthDate))
                   (whenStr (deathDate father) (fatherDeathCheck eng childBirthDate)))"

definition motherChecks :: "engine \<Rightarrow> store \<Rightarrow> string \<Rightarrow> int option \<Rightarrow> error + unit" where
  "motherChecks eng s childBirthDate mid =
     whenNum mid (\<lambda>m.
       case findOneBy s m of
         None \<Rightarrow> Inr ()
       | Some mother \<Rightarrow>
           andThen (whenStr (birthDate mother) (parentBirthCheck eng Mother childBirthDate))
                   (whenStr (deathDate mother) (motherDeathCheck eng childBirthDate)))"

definition validateParentDates ::
    "engine \<Rightarrow> store \<Rightarrow> string option \<Rightarrow> int option \<Rightarrow> int option \<Rightarrow> error + unit" where
  "validateParentDates eng s childBirthDate fid mid =
     whenStr childBirthDate (\<lambda>cbd.
       andThen (fatherChecks eng s cbd fid) (motherChecks eng s cbd mid))"

subsection \<open>Cycle detector\<close>

text \<open>
  The \<^verbatim>\<open>while (stack.length > 0)\<close> loop of \<^verbatim>\<open>wouldCreateAncestryCycle\<close>. The head of
  the list is the top of the stack (\<^verbatim>\<open>pop\<close> takes it, \<^verbatim>\<open>push\<close> adds before it); the
  visited set is a list of ids.
\<close>

definition pushId :: "int option \<Rightarrow> int list \<Rightarrow> int list \<Rightarrow> int list" where
  "pushId x visited stack =
     (case x of None \<Rightarrow> stack
      | Some n \<Rightarrow> if n \<noteq> 0 \<and> n \<notin> set visited then n # stack else stack)"

definition parentRefs :: "store \<Rightarrow> int set" where
  "parentRefs s = (\<Union>p \<in> set (rows s). set_option (fatherId p) \<union> set_option (motherId p))"

function cycleLoop :: "store \<Rightarrow> int \<Rightarrow> int list \<Rightarrow> int list \<Rightarrow> bool" where
  "cycleLoop s potentialAncestorId visited [] = False"
| "cycleLoop s potentialAncestorId visited (currentId # stack) =
     (if currentId = 0 then cycleLoop s potentialAncestorId visited stack
      else if currentId \<in> set visited then cycleLoop s potentialAncestorId visited stack
      else (case findOneBy s currentId of
              None \<Rightarrow> cycleLoop s potentialAncestorId (currentId # visited) stack
            | Some current \<Rightarrow>
                if fatherId current = Some potentialAncestorId
                   \<or> motherId current = Some potentialAncestorId
                then True
                else cycleLoop s potentialAncestorId (currentId # visited)
                       (pushId (motherId current) (currentId # visited)
                          (pushId (fatherId current) (currentId # visited) stack))))"
  by pat_completeness auto

lemma finite_parentRefs: "finite (parentRefs s)"
  by (simp add: parentRefs_def)

lemma findOneBy_in_rows: "findOneBy s i = Some p \<Longrightarrow> p \<in> set (rows s) \<and> personId p = i"
  by (auto simp: findOneBy_def find_Some_iff)

lemma pushId_subset:
  "x = None \<or> (\<exists>n. x = Some n \<and> n \<in> R) \<Longrightarrow> set stack \<subseteq> R \<union> S
     \<Longrightarrow> set (pushId x visited stack) \<subseteq> R \<union> S"
  by (auto simp: pushId_def split: option.splits)

lemma parent_in_parentRefs:
  "p \<in> set (rows s) \<Longrightarrow> fatherId p = None \<or> (\<exists>n. fatherId p = Some n \<and> n \<in> parentRefs s)"
  "p \<in> set (rows s) \<Longrightarrow> motherId p = None \<or> (\<exists>n. motherId p = Some n \<and> n \<in> parentRefs s)"
  by (cases "fatherId p"; fastforce simp: parentRefs_def)
     (cases "motherId p"; fastforce simp: parentRefs_def)

lemma card_pending_le:
  "card ((parentRefs s \<union> set stack) - set visited)
     \<le> card ((parentRefs s \<union> set (c # stack)) - set visited)"
  by (rule card_mono) (auto simp: finite_parentRefs)

lemma card_pending_less:
  assumes "c \<notin> set visited" and "set stack' \<subseteq> parentRefs s \<union> set stack"
  shows "card ((parentRefs s \<union> set stack') - set (c # visited))
           < card ((parentRefs s \<union> set (c # stack)) - set visited)"
proof (rule psubset_card_mono)
  show "finite ((parentRefs s \<union> set (c # stack)) - set visited)"
    by (simp add: finite_parentRefs)
  have "c \<in> (parentRefs s \<union> set (c # stack)) - set visited"
    using assms(1) by simp
  moreover have "c \<notin> (parentRefs s \<union> set stack') - set (c # visited)"
    by simp
  moreover have "(parentRefs s \<union> set stack') - set (c # visited)
                   \<subseteq> (parentRefs s \<union> set (c # stack)) - set visited"
    using assms(2) by auto
  ultimately show "(parentRefs s \<union> set stack') - set (c # visited)
                     \<subset> (parentRefs s \<union> set (c # stack)) - set visited"
    by blast
qed

termination cycleLoop
proof (relation "inv_image (less_than <*lex*> less_than)
         (\<lambda>(s, a, visited, stack).
            (card ((parentRefs s \<union> set stack) - set visited), length stack))", goal_cases)
  case 1
  show ?case by (intro wf_inv_image wf_lex_prod wf_less_than)
next
  case (2 s a visited c stack)
  show ?case using card_pending_le [of s stack visited c] by auto
next
  case (3 s a visited c stack)
  show ?case using card_pending_le [of s stack visited c] by auto
next
  case (4 s a visited c stack)
  then show ?case using card_pending_less [of c visited stack s stack] by auto
next
  case (5 s a visited c stack current)
  then have cur: "current \<in> set (rows s)"
    by (simp add: findOneBy_in_rows)
  have "set (pushId (fatherId current) (c # visited) stack) \<subseteq> parentRefs s \<union> set stack"
    by (rule pushId_subset [OF parent_in_parentRefs(1) [OF cur]]) auto
  then have "set (pushId (motherId current) (c # visited)
                (pushId (fatherId current) (c # visited) stack)) \<subseteq> parentRefs s \<union> set stack"
    by (rule pushId_subset [OF parent_in_parentRefs(2) [OF cur]])
  with 5 show ?case
    using card_pending_less [of c visited _ s stack] by auto
qed

definition wouldCreateAncestryCycle :: "store \<Rightarrow> int \<Rightarrow> int \<Rightarrow> bool" where
  "wouldCreateAncestryCycle s potentialAncestorId startPersonId =
     cycleLoop s potentialAncestorId [] [startPersonId]"

subsection \<open>Connectivity guard\<close>

text \<open>\<^verbatim>\<open>validateNotOrphan\<close> may set \<^verbatim>\<open>progenitor\<close> in the payload: it returns the
  payload the rest of \<^verbatim>\<open>create\<close> goes on with.\<close>

definition validateNotOrphan :: "store \<Rightarrow> CreatePersonDto \<Rightarrow> error + CreatePersonDto" where
  "validateNotOrphan s dto =
     (let hasParent = (truthyNum (c_fatherId dto) \<or> truthyNum (c_motherId dto));
          hasChildren = (case c_childrenIds dto of None \<Rightarrow> False | Some ids \<Rightarrow> length ids > 0)
      in if hasParent \<or> hasChildren then Inr dto
         else if c_progenitor dto = Some True then Inr dto
         else if countRows s = 0 then Inr (dto\<lparr>c_progenitor := Some True\<rparr>)
         else Inl DisconnectedPerson)"

subsection \<open>Validation of the children to link\<close>

definition roleOfGender :: "gender \<Rightarrow> role" where
  "roleOfGender g = (if g = Male then Father else Mother)"

definition expectedGender :: "role \<Rightarrow> gender" where
  "expectedGender r = (if r = Father then Male else Female)"

text \<open>The \<^verbatim>\<open>for (const child of children)\<close> loop of
  \<^verbatim>\<open>validateParentDatesForChildren\<close>; \<open>parentDeathYear\<close> is \<open>NaN\<close> for \<^verbatim>\<open>null\<close>
  too (both are falsy, and the value is compared only when it is truthy).\<close>

fun childrenDatesLoop :: "engine \<Rightarrow> gender \<Rightarrow> jsnum \<Rightarrow> jsnum \<Rightarrow> Person list \<Rightarrow> error + unit" where
  "childrenDatesLoop eng parentGender parentBirthYear parentDeathYear [] = Inr ()"
| "childrenDatesLoop eng parentGender parentBirthYear parentDeathYear (child # rest) =
     (if \<not> truthyStr (birthDate child)
      then childrenDatesLoop eng parentGender parentBirthYear parentDeathYear rest
      else
        (let childBirthYear = (case birthDate child of Some b \<Rightarrow> extractYear eng b | None \<Rightarrow> NaN);
             parentAgeAtChildBirth = jsSub childBirthYear parentBirthYear
         in if jsLt parentAgeAtChildBirth (Fin 14)
            then Inl (ImplausibleAge (roleOfGender parentGender))
            else if truthyJs parentDeathYear \<and> parentGender = Male
                    \<and> jsLt parentDeathYear (jsSub childBirthYear (Fin 1))
            then Inl (ImplausibleDeathWindow Father)
            else if truthyJs parentDeathYear \<and> parentGender \<noteq> Male
                    \<and> jsLt parentDeathYear childBirthYear
            then Inl (ImplausibleDeathWindow Mother)
            else childrenDatesLoop eng parentGender parentBirthYear parentDeathYear rest))"

definition validateParentDatesForChildren ::
    "engine \<Rightarrow> Person list \<Rightarrow> gender \<Rightarrow> string option \<Rightarrow> string option \<Rightarrow> error + unit" where
  "validateParentDatesForChildren eng children parentGender parentBirthDate parentDeathDate =
     andThen
       (whenStr parentBirthDate (\<lambda>b. whenStr parentDeathDate (\<lambda>d.
          if jsLt (extractYear eng d) (extractYear eng b) then Inl DeathBeforeBirth else Inr ())))
       (whenStr parentBirthDate (\<lambda>b.
          childrenDatesLoop eng parentGender (extractYear eng b)
            (case parentDeathDate of None \<Rightarrow> NaN
             | Some d \<Rightarrow> if d = [] then NaN else extractYear eng d)
            children))"

definition validateChildren ::
    "engine \<Rightarrow> store \<Rightarrow> int list option \<Rightarrow> gender \<Rightarrow> string option \<Rightarrow> string option
       \<Rightarrow> error + Person list" where
  "validateChildren eng s childrenIds g parentBirthDate parentDeathDate =
     (case childrenIds of
        None \<Rightarrow> Inr []
      | Some ids \<Rightarrow>
          if ids = [] then Inr []
          else
            (let children = findBy s ids
             in if length children \<noteq> length ids then Inl ChildrenNotFound
                else if list_ex (\<lambda>child. truthyNum (if g = Male then fatherId child
                                                     else motherId child)) children
                then Inl ChildHasParent
                else (case validateParentDatesForChildren eng children g
                             parentBirthDate parentDeathDate of
                        Inl e \<Rightarrow> Inl e
                      | Inr _ \<Rightarrow> Inr children)))"

definition setParent :: "gender \<Rightarrow> int \<Rightarrow> Person \<Rightarrow> Person" where
  "setParent g parentId r =
     (if g = Male then r\<lparr>fatherId := Some parentId\<rparr> else r\<lparr>motherId := Some parentId\<rparr>)"

definition linkChildrenToParentInternal :: "Person \<Rightarrow> Person list \<Rightarrow> store \<Rightarrow> store" where
  "linkChildrenToParentInternal parent children s =
     fold (\<lambda>child. updateById (personId child) (setParent (gender parent) (personId parent)))
       children s"

subsection \<open>Mutation orchestrator\<close>

definition entityOf :: "CreatePersonDto \<Rightarrow> Person" where
  "entityOf dto =
     \<lparr>personId = 0, firstName = c_firstName dto, lastName = c_lastName dto,
      gender = c_gender dto, birthDate = c_birthDate dto, deathDate = c_deathDate dto,
      trivia = c_trivia dto,
      progenitor = (case c_progenitor dto of None \<Rightarrow> False | Some b \<Rightarrow> b),
      fatherId = c_fatherId dto, motherId = c_motherId dto\<rparr>"

definition create :: "engine \<Rightarrow> CreatePersonDto \<Rightarrow> store \<Rightarrow> (error + Person) \<times> store" where
  "create eng createPersonDto s =
     (case validateNotOrphan s createPersonDto of
        Inl e \<Rightarrow> (Inl e, s)
      | Inr dto \<Rightarrow>
     (case validateParents s (c_fatherId dto) (c_motherId dto) of
        Inl e \<Rightarrow> (Inl e, s)
      | Inr _ \<Rightarrow>
     (case validateParentDates eng s (c_birthDate dto) (c_fatherId dto) (c_motherId dto) of
        Inl e \<Rightarrow> (Inl e, s)
      | Inr _ \<Rightarrow>
     (case validateChildren eng s (c_childrenIds dto) (c_gender dto)
             (c_birthDate dto) (c_deathDate dto) of
        Inl e \<Rightarrow> (Inl e, s)
      | Inr childrenToLink \<Rightarrow>
          (case saveNew (entityOf dto) s of
             (savedPerson, s1) \<Rightarrow>
               (Inr savedPerson,
                if length childrenToLink > 0
                then linkChildrenToParentInternal savedPerson childrenToLink s1
                else s1))))))"

definition linkChildrenToParent ::
    "engine \<Rightarrow> int \<Rightarrow> int list \<Rightarrow> role \<Rightarrow> store \<Rightarrow> (error + nat) \<times> store" where
  "linkChildrenToParent eng parentId childrenIds parentType s =
     (case findOneBy s parentId of
        None \<Rightarrow> (Inl NotFound, s)
      | Some parent \<Rightarrow>
          if childrenIds = [] then (Inl ChildrenRequired, s)
          else if parentId \<in> set childrenIds then (Inl SelfParent, s)
          else if list_ex (\<lambda>childId. wouldCreateAncestryCycle s childId parentId) childrenIds
          then (Inl CycleDetected, s)
          else if gender parent \<noteq> expectedGender parentType
          then (Inl (InvalidRole parentType), s)
          else (case validateChildren eng s (Some childrenIds) (gender parent)
                       (birthDate parent) (deathDate parent) of
                  Inl e \<Rightarrow> (Inl e, s)
                | Inr children \<Rightarrow>
                    (Inr (length children), linkChildrenToParentInternal parent children s)))"

definition findPersonById :: "store \<Rightarrow> int \<Rightarrow> error + Person" where
  "findPersonById s i = (case findOneBy s i of None \<Rightarrow> Inl NotFound | Some p \<Rightarrow> Inr p)"

definition removePerson :: "int \<Rightarrow> store \<Rightarrow> (error + unit) \<times> store" where
  "removePerson i s =
     (case findPersonById s i of
        Inl e \<Rightarrow> (Inl e, s)
      | Inr person \<Rightarrow>
          if length (filter (\<lambda>r. fatherId r = Some (personId person)
                                 \<or> motherId r = Some (personId person)) (rows s)) > 0
          then (Inl HasDependents, s)
          else (Inr (), removeRow person s))"

text \<open>\<^verbatim>\<open>Object.assign(person, updatePersonDto)\<close>: the keys present in the payload.\<close>

definition objectAssign :: "Person \<Rightarrow> UpdatePersonDto \<Rightarrow> Person" where
  "objectAssign person dto =
     person\<lparr>firstName := (case u_firstName dto of None \<Rightarrow> firstName person | Some v \<Rightarrow> v),
            lastName := (case u_lastName dto of None \<Rightarrow> lastName person | Some v \<Rightarrow> v),
            progenitor := (case u_progenitor dto of None \<Rightarrow> progenitor person | Some v \<Rightarrow> v),
            birthDate := (case u_birthDate dto of None \<Rightarrow> birthDate person | Some v \<Rightarrow> Some v),
            deathDate := (case u_deathDate dto of None \<Rightarrow> deathDate person | Some v \<Rightarrow> Some v),
            trivia := (case u_trivia dto of None \<Rightarrow> trivia person | Some v \<Rightarrow> Some v),
            fatherId := assign (u_fatherId dto) (fatherId person),
            motherId := assign (u_motherId dto) (motherId person)\<rparr>"

text \<open>The two \<^verbatim>\<open>if (updatePersonDto.xId != null)\<close> blocks before the write.\<close>

definition cycleCheck :: "store \<Rightarrow> Person \<Rightarrow> int nullable \<Rightarrow> error + unit" where
  "cycleCheck s person x =
     (case x of
        Value n \<Rightarrow> if wouldCreateAncestryCycle s (personId person) n
                   then Inl CycleDetected else Inr ()
      | _ \<Rightarrow> Inr ())"

definition updatePerson :: "engine \<Rightarrow> int \<Rightarrow> UpdatePersonDto \<Rightarrow> store \<Rightarrow> (error + Person) \<times> store" where
  "updatePerson eng i updatePersonDto s =
     (case findPersonById s i of
        Inl e \<Rightarrow> (Inl e, s)
      | Inr person \<Rightarrow>
     (case (if truthyNullable (u_fatherId updatePersonDto)
               \<or> truthyNullable (u_motherId updatePersonDto)
            then validateParents s (coalesce (u_fatherId updatePersonDto) None)
                                   (coalesce (u_motherId updatePersonDto) None)
            else Inr ()) of
        Inl e \<Rightarrow> (Inl e, s)
      | Inr _ \<Rightarrow>
     (case (if truthyStr (u_birthDate updatePersonDto)
               \<or> truthyNullable (u_fatherId updatePersonDto)
               \<or> truthyNullable (u_motherId updatePersonDto)
            then validateParentDates eng s
                   (case u_birthDate updatePersonDto of
                      None \<Rightarrow> birthDate person | Some b \<Rightarrow> Some b)
                   (coalesce (u_fatherId updatePersonDto) (fatherId person))
                   (coalesce (u_motherId updatePersonDto) (motherId person))
            else Inr ()) of
        Inl e \<Rightarrow> (Inl e, s)
      | Inr _ \<Rightarrow>
          if u_fatherId updatePersonDto = Value i \<or> u_motherId updatePersonDto = Value i
          then (Inl SelfParent, s)
          else
     (case andThen (cycleCheck s person (u_fatherId updatePersonDto))
                   (cycleCheck s person (u_motherId updatePersonDto)) of
        Inl e \<Rightarrow> (Inl e, s)
      | Inr _ \<Rightarrow>
          (let person' = objectAssign person updatePersonDto
           in (Inr person', saveExisting person' s))))))"

definition findProgenitor :: "store \<Rightarrow> Person option" where
  "findProgenitor s = find progenitor (rows s)"

subsection \<open>Ancestor promotion\<close>

text \<open>
  The query runner's transaction: the table at \<^verbatim>\<open>startTransaction\<close> and the table the
  manager's writes act on. \<^verbatim>\<open>commitTransaction\<close> makes the written table the stored one,
  \<^verbatim>\<open>rollbackTransaction\<close> goes back to the table at the start. A \<open>fault\<close> says which call
  to the database, if any, throws.
\<close>

record txn =
  snapshot :: store
  working :: store

datatype fault = NoFault | FailInsert | FailUpdate | FailCommit

definition startTransaction :: "store \<Rightarrow> txn" where
  "startTransaction s = \<lparr>snapshot = s, working = s\<rparr>"

definition commitTransaction :: "txn \<Rightarrow> store" where
  "commitTransaction t = working t"

definition rollbackTransaction :: "txn \<Rightarrow> store" where
  "rollbackTransaction t = snapshot t"

definition ancestorOf :: "PromoteAncestorDto \<Rightarrow> Person" where
  "ancestorOf dto =
     \<lparr>personId = 0, firstName = a_firstName dto, lastName = a_lastName dto,
      gender = a_gender dto, birthDate = a_birthDate dto, deathDate = a_deathDate dto,
      trivia = a_trivia dto, progenitor = True, fatherId = None, motherId = None\<rparr>"

definition demote :: "role \<Rightarrow> int \<Rightarrow> Person \<Rightarrow> Person" where
  "demote relationship newId r =
     (if relationship = Father then r\<lparr>progenitor := False, fatherId := Some newId\<rparr>
      else r\<lparr>progenitor := False, motherId := Some newId\<rparr>)"

text \<open>The body of the \<^verbatim>\<open>try\<close> block: the insert, the update, the commit.\<close>

definition promotionBody :: "fault \<Rightarrow> PromoteAncestorDto \<Rightarrow> txn \<Rightarrow> (error + Person) \<times> txn" where
  "promotionBody flt dto t =
     (if flt = FailInsert then (Inl StoreFailure, t)
      else
        (case saveNew (ancestorOf dto) (working t) of
           (newAncestor, w1) \<Rightarrow>
             if flt = FailUpdate then (Inl StoreFailure, t\<lparr>working := w1\<rparr>)
             else
               (let w2 = updateById (a_currentProgenitorId dto)
                           (demote (a_relationship dto) (personId newAncestor)) w1
                in if flt = FailCommit then (Inl StoreFailure, t\<lparr>working := w2\<rparr>)
                   else (Inr newAncestor, t\<lparr>working := w2\<rparr>))))"

definition promoteAncestor ::
    "fault \<Rightarrow> PromoteAncestorDto \<Rightarrow> store \<Rightarrow> (error + Person) \<times> store" where
  "promoteAncestor flt dto s =
     (case findProgenitor s of
        None \<Rightarrow> (Inl NotFound, s)
      | Some currentProgenitor \<Rightarrow>
          if personId currentProgenitor \<noteq> a_currentProgenitorId dto
          then (Inl IdentityMismatch, s)
          else if a_gender dto \<noteq> expectedGender (a_relationship dto)
          then (Inl (InvalidRole (a_relationship dto)), s)
          else
            (case promotionBody flt dto (startTransaction s) of
               (Inl e, t) \<Rightarrow> (Inl e, rollbackTransaction t)
             | (Inr newAncestor, t) \<Rightarrow> (Inr newAncestor, commitTransaction t)))"

subsection \<open>Conditions on a payload\<close>

text \<open>A creation payload with no truthy parent id, no child to link and no
  \<^verbatim>\<open>progenitor: true\<close>.\<close>

definition disconnected :: "CreatePersonDto \<Rightarrow> bool" where
  "disconnected dto =
     (\<not> truthyNum (c_fatherId dto) \<and> \<not> truthyNum (c_motherId dto)
      \<and> (c_childrenIds dto = None \<or> c_childrenIds dto = Some [])
      \<and> c_progenitor dto \<noteq> Some True)"

subsection \<open>Tables, mutations and invariants\<close>

text \<open>A table is well formed when its ids are positive, distinct and below the next
  generated id, as a generated primary key makes them.\<close>

definition wf_store :: "store \<Rightarrow> bool" where
  "wf_store s =
     (0 < nextId s
      \<and> list_all (\<lambda>p. 0 < personId p \<and> personId p < nextId s) (rows s)
      \<and> distinct (map personId (rows s)))"

text \<open>No row names itself as its father or mother.\<close>

definition noSelfParent :: "store \<Rightarrow> bool" where
  "noSelfParent s =
     list_all (\<lambda>p. fatherId p \<noteq> Some (personId p) \<and> motherId p \<noteq> Some (personId p)) (rows s)"

text \<open>The mutations the service offers, and the table each one leaves.\<close>

datatype mutation =
    Create CreatePersonDto
  | Update int UpdatePersonDto
  | LinkChildren int "int list" role
  | Remove int
  | Promote fault PromoteAncestorDto

fun commit :: "engine \<Rightarrow> mutation \<Rightarrow> store \<Rightarrow> store" where
  "commit eng (Create dto) s = snd (create eng dto s)"
| "commit eng (Update i dto) s = snd (updatePerson eng i dto s)"
| "commit eng (LinkChildren parentId childrenIds parentType) s =
     snd (linkChildrenToParent eng parentId childrenIds parentType s)"
| "commit eng (Remove i) s = snd (removePerson i s)"
| "commit eng (Promote flt dto) s = snd (promoteAncestor flt dto s)"

text \<open>The parent edges of a table: child id to father id, child id to mother id.\<close>

definition parentEdges :: "store \<Rightarrow> (int \<times> int) set" where
  "parentEdges s =
     set (concat (map (\<lambda>p. (case fatherId p of None \<Rightarrow> [] | Some f \<Rightarrow> [(personId p, f)])
                          @ (case motherId p of None \<Rightarrow> [] | Some m \<Rightarrow> [(personId p, m)]))
                  (rows s)))"

text \<open>Every parent reference is below the next generated id: it names a row that was
  inserted, or is the falsy id 0.\<close>

definition refsBelow :: "store \<Rightarrow> bool" where
  "refsBelow s \<longleftrightarrow> snd ` parentEdges s \<subseteq> {..< nextId s}"

definition soundStore :: "store \<Rightarrow> bool" where
  "soundStore s \<longleftrightarrow> wf_store s \<and> refsBelow s \<and> acyclic (parentEdges s)"

text \<open>A mutation is guarded unless it is a creation that supplies a parent and children.\<close>

fun guarded :: "mutation \<Rightarrow> bool" where
  "guarded (Create dto) =
     ((c_childrenIds dto = None \<or> c_childrenIds dto = Some [])
      \<or> (\<not> truthyNum (c_fatherId dto) \<and> \<not> truthyNum (c_motherId dto)))"
| "guarded _ = True"

text \<open>At most one row is flagged progenitor; a mutation is flagging when its payload
  carries \<^verbatim>\<open>progenitor: true\<close>.\<close>

definition singleProgenitor :: "store \<Rightarrow> bool" where
  "singleProgenitor s \<longleftrightarrow> length (filter progenitor (rows s)) \<le> 1"

fun flagging :: "mutation \<Rightarrow> bool" where
  "flagging (Create dto) = (c_progenitor dto = Some True)"
| "flagging (Update i dto) = (u_progenitor dto = Some True)"
| "flagging _ = False"

text \<open>
  The invariant of the cycle detector's loop: no visited node has the sought ancestor as a
  parent, and every parent of a visited node is visited, on the stack, or the falsy id 0.
\<close>

definition explored :: "store \<Rightarrow> int \<Rightarrow> int set \<Rightarrow> int set \<Rightarrow> bool" where
  "explored s anc V S \<longleftrightarrow>
     (\<forall>v \<in> V. (v, anc) \<notin> parentEdges s
              \<and> (\<forall>w. (v, w) \<in> parentEdges s \<longrightarrow> w \<in> V \<or> w \<in> S \<or> w = 0))"

text \<open>The ids a payload sets as parents.\<close>

definition optList :: "int option \<Rightarrow> int list" where
  "optList x = (case x of None \<Rightarrow> [] | Some v \<Rightarrow> [v])"

definition valueList :: "int nullable \<Rightarrow> int list" where
  "valueList x = (case x of Value v \<Rightarrow> [v] | _ \<Rightarrow> [])"

subsection \<open>Example data\<close>

text \<open>An engine on a clock set to UTC, which reads as \<^verbatim>\<open>NaN\<close> what is left to it.\<close>

definition utcEngine :: engine where
  "utcEngine =
     \<lparr>parseIntOf = (\<lambda>str. NaN), dateOf = (\<lambda>str. NaN), setMonthPlus9 = utcPlusNineMonths\<rparr>"

definition blankPatch :: UpdatePersonDto where
  "blankPatch =
     \<lparr>u_firstName = None, u_lastName = None, u_progenitor = None, u_birthDate = None,
      u_deathDate = None, u_trivia = None, u_fatherId = Undefined, u_motherId = Undefined\<rparr>"

definition blankDto :: CreatePersonDto where
  "blankDto =
     \<lparr>c_firstName = ''New'', c_lastName = ''Person'', c_gender = Male, c_progenitor = None,
      c_birthDate = None, c_deathDate = None, c_trivia = None, c_fatherId = None,
      c_motherId = None, c_childrenIds = None\<rparr>"

definition person :: "int \<Rightarrow> gender \<Rightarrow> Person" where
  "person i g =
     \<lparr>personId = i, firstName = ''Some'', lastName = ''Body'', gender = g, birthDate = None,
      deathDate = None, trivia = None, progenitor = False, fatherId = None, motherId = None\<rparr>"

text \<open>A root (1, male, progenitor) and his son (2).\<close>

definition fatherAndSon :: store where
  "fatherAndSon =
     \<lparr>rows = [(person 1 Male)\<lparr>progenitor := True\<rparr>, (person 2 Male)\<lparr>fatherId := Some 1\<rparr>],
      nextId = 3\<rparr>"

definition emptyStore :: store where
  "emptyStore = \<lparr>rows = [], nextId = 1\<rparr>"

text \<open>A father born 1900 (1) and a mother born 1902 (2).\<close>

definition parents1900 :: store where
  "parents1900 =
     \<lparr>rows = [(person 1 Male)\<lparr>progenitor := True, birthDate := Some ''1900''\<rparr>,
              (person 2 Female)\<lparr>birthDate := Some ''1902''\<rparr>],
      nextId = 3\<rparr>"

definition childOf :: "string \<Rightarrow> CreatePersonDto" where
  "childOf b = blankDto\<lparr>c_birthDate := Some b, c_fatherId := Some 1, c_motherId := Some 2\<rparr>"

text \<open>A father who died "1950" (1) and a mother who died on 1950-01-01 (2).\<close>

definition died1950 :: store where
  "died1950 =
     \<lparr>rows = [(person 1 Male)\<lparr>progenitor := True, deathDate := Some ''1950''\<rparr>,
              (person 2 Female)\<lparr>deathDate := Some ''1950-01-01''\<rparr>],
      nextId = 3\<rparr>"

text \<open>A father who died "1900" (1) and a mother born "1910" (2).\<close>

definition died1900 :: store where
  "died1900 =
     \<lparr>rows = [(person 1 Male)\<lparr>progenitor := True, deathDate := Some ''1900''\<rparr>,
              (person 2 Female)\<lparr>birthDate := Some ''1910''\<rparr>],
      nextId = 3\<rparr>"

text \<open>A new male ancestor to be promoted above person 1, as his father.\<close>

definition grandfather :: PromoteAncestorDto where
  "grandfather =
     \<lparr>a_firstName = ''Grand'', a_lastName = ''Father'', a_gender = Male, a_birthDate = None,
      a_deathDate = None, a_trivia = None, a_currentProgenitorId = 1,
      a_relationship = Father\<rparr>"

text \<open>A payload with \<^verbatim>\<open>progenitor: true\<close>, and one that names person 2 as father and
  person 1 as child.\<close>

definition secondRoot :: CreatePersonDto where
  "secondRoot = blankDto\<lparr>c_progenitor := Some True\<rparr>"

definition closingDto :: CreatePersonDto where
  "closingDto = blankDto\<lparr>c_fatherId := Some 2, c_childrenIds := Some [1]\<rparr>"

section \<open>Properties\<close>

subsection \<open>Rounding to a double\<close>

lemma toDouble_exact: "\<bar>n\<bar> \<le> 2 ^ 53 \<Longrightarrow> toDouble n = Fin n"
  by (simp add: toDouble_def)

lemma bitLength_bounds: "0 < n \<Longrightarrow> 2 ^ (bitLength n - 1) \<le> n \<and> n < 2 ^ bitLength n"
proof (induction n rule: bitLength.induct)
  case (1 n)
  have b: "bitLength n = Suc (bitLength (n div 2))"
    using 1(2) by (subst bitLength.simps) simp
  show ?case
  proof (cases "n div 2 \<le> 0")
    case True
    with 1(2) have n: "n = 1" by linarith
    have "bitLength (1 div 2) = 0" by (subst bitLength.simps) simp
    with b n show ?thesis by simp
  next
    case False
    then have p: "0 < n div 2" by simp
    have nn: "\<not> n \<le> 0" using 1(2) by simp
    from 1(1) [OF nn p]
    have ih: "2 ^ (bitLength (n div 2) - 1) \<le> n div 2" "n div 2 < 2 ^ bitLength (n div 2)"
      by auto
    have pos: "bitLength (n div 2) > 0" using p by (subst bitLength.simps) simp
    then obtain k where k: "bitLength (n div 2) = Suc k"
      by (cases "bitLength (n div 2)") auto
    from ih k have "2 ^ k \<le> n div 2" "n div 2 < 2 * 2 ^ k" by auto
    then have "2 * 2 ^ k \<le> n" "n < 2 * (2 * 2 ^ k)" by linarith+
    then show ?thesis using b k by simp
  qed
qed

text \<open>Rounding keeps an integer above \<open>2 ^ 53\<close> at or above \<open>2 ^ 53\<close>.\<close>

lemma toDouble_large:
  assumes "2 ^ 53 < n"
  shows "toDouble n = PosInf \<or> (\<exists>v. toDouble n = Fin v \<and> 2 ^ 53 \<le> v)"
proof -
  have pos: "0 < n" using assms by (smt (verit) zero_less_power)
  from bitLength_bounds [OF pos]
  have lo: "2 ^ (bitLength n - 1) \<le> n" and hi: "n < 2 ^ bitLength n" by auto
  have h: "(2::int) ^ 53 < 2 ^ bitLength n" using assms hi by linarith
  have bl: "53 < bitLength n" by (rule power_less_imp_less_exp [OF _ h]) simp
  define e where "e = bitLength n - 53"
  have e1: "1 \<le> e" and be: "bitLength n - 1 = e + 52" using bl by (auto simp: e_def)
  define q where "q = n div 2 ^ e"
  have "(2::int) ^ (e + 52) div 2 ^ e \<le> n div 2 ^ e"
    using lo be by (intro zdiv_mono1) auto
  moreover have "(2::int) ^ (e + 52) div 2 ^ e = 2 ^ 52"
    by (simp add: power_add)
  ultimately have q52: "2 ^ 52 \<le> q" by (simp add: q_def)
  define q' where "q' = (if 2 * (n mod 2 ^ e) > 2 ^ e \<or> (2 * (n mod 2 ^ e) = 2 ^ e \<and> odd q)
                         then q + 1 else q)"
  have qq: "q \<le> q'" by (simp add: q'_def)
  have "(2::int) ^ 1 \<le> 2 ^ e" using e1 by (intro power_increasing) auto
  then have two: "(2::int) \<le> 2 ^ e" by simp
  have "2 ^ 52 * 2 \<le> q' * (2::int) ^ e"
    using q52 qq two by (intro mult_mono) auto
  then have v: "2 ^ 53 \<le> q' * (2::int) ^ e" by simp
  have big: "\<not> \<bar>n\<bar> \<le> 2 ^ 53" using assms by simp
  have "toDouble n = (if q' * 2 ^ e \<ge> 2 ^ 1024 then PosInf else Fin (q' * 2 ^ e))"
    using big pos unfolding toDouble_def Let_def q'_def q_def e_def by simp
  with v show ?thesis by auto
qed

text \<open>So the rounded value of a difference \<open>n \<ge> 0\<close> is below a bound \<open>k\<close> exactly when
  \<open>n\<close> is.\<close>

lemma jsLt_toDouble:
  assumes "0 \<le> n" "\<bar>k\<bar> \<le> 2 ^ 53"
  shows "jsLt (toDouble n) (Fin k) \<longleftrightarrow> n < k"
proof (cases "n \<le> 2 ^ 53")
  case True
  with assms(1) show ?thesis by (simp add: toDouble_exact)
next
  case False
  then have "2 ^ 53 < n" by simp
  from toDouble_large [OF this] False assms(2) show ?thesis by auto
qed

subsection \<open>What each validator can raise\<close>

lemma andThen_Inl:
  "andThen a b = Inl e \<longleftrightarrow> a = Inl e \<or> ((\<exists>u. a = Inr u) \<and> b = Inl e)"
  by (cases a) auto

lemma andThen_Inr: "andThen a b = Inr u \<longleftrightarrow> (\<exists>v. a = Inr v) \<and> b = Inr u"
  by (cases a) auto

lemma whenStr_Inl: "whenStr x f = Inl e \<longleftrightarrow> (\<exists>b. x = Some b \<and> b \<noteq> [] \<and> f b = Inl e)"
  by (cases x) auto

lemma whenNum_Inl: "whenNum x f = Inl e \<longleftrightarrow> (\<exists>n. x = Some n \<and> n \<noteq> 0 \<and> f n = Inl e)"
  by (cases x) auto

lemma validateParents_errors:
  "validateParents s f m = Inl e
     \<Longrightarrow> e = NotFound \<or> e = InvalidRole Father \<or> e = InvalidRole Mother"
  by (cases f; cases m)
     (auto simp: validateParents_def andThen_Inl split: option.splits if_splits)

lemma parentBirthCheck_errors: "parentBirthCheck eng r c b = Inl e \<Longrightarrow> e = ImplausibleAge r"
  by (auto simp: parentBirthCheck_def Let_def split: if_splits)

lemma fatherDeathCheck_errors:
  "fatherDeathCheck eng c d = Inl e \<Longrightarrow> e = ImplausibleDeathWindow Father"
  by (auto simp: fatherDeathCheck_def Let_def split: if_splits)

lemma motherDeathCheck_errors:
  "motherDeathCheck eng c d = Inl e \<Longrightarrow> e = ImplausibleDeathWindow Mother"
  by (auto simp: motherDeathCheck_def Let_def split: if_splits)

lemma fatherChecks_errors:
  "fatherChecks eng s c f = Inl e
     \<Longrightarrow> e = ImplausibleAge Father \<or> e = ImplausibleDeathWindow Father"
  by (auto simp: fatherChecks_def whenNum_Inl whenStr_Inl andThen_Inl split: option.splits
           dest: parentBirthCheck_errors fatherDeathCheck_errors)

lemma motherChecks_errors:
  "motherChecks eng s c m = Inl e
     \<Longrightarrow> e = ImplausibleAge Mother \<or> e = ImplausibleDeathWindow Mother"
  by (auto simp: motherChecks_def whenNum_Inl whenStr_Inl andThen_Inl split: option.splits
           dest: parentBirthCheck_errors motherDeathCheck_errors)

lemma validateParentDates_errors:
  "validateParentDates eng s c f m = Inl e
     \<Longrightarrow> \<exists>r. e = ImplausibleAge r \<or> e = ImplausibleDeathWindow r"
  by (auto simp: validateParentDates_def whenStr_Inl andThen_Inl
           dest: fatherChecks_errors motherChecks_errors)

lemma childrenDatesLoop_errors:
  "childrenDatesLoop eng g pb pd cs = Inl e
     \<Longrightarrow> \<exists>r. e = ImplausibleAge r \<or> e = ImplausibleDeathWindow r"
  by (induction cs) (auto simp: Let_def split: if_splits)

lemma validateChildren_errors:
  "validateChildren eng s ids g pb pd = Inl e \<Longrightarrow>
     e = ChildrenNotFound \<or> e = ChildHasParent \<or> e = DeathBeforeBirth
     \<or> (\<exists>r. e = ImplausibleAge r \<or> e = ImplausibleDeathWindow r)"
  by (auto simp: validateChildren_def validateParentDatesForChildren_def Let_def
                 andThen_Inl whenStr_Inl
           split: option.splits if_splits sum.splits dest: childrenDatesLoop_errors)

subsection \<open>Connectivity guard at creation\<close>

lemma validateNotOrphan_cases:
  "validateNotOrphan s dto =
     (if \<not> disconnected dto then Inr dto
      else if rows s = [] then Inr (dto\<lparr>c_progenitor := Some True\<rparr>)
      else Inl DisconnectedPerson)"
  by (auto simp: validateNotOrphan_def disconnected_def countRows_def Let_def
           split: option.splits)

lemma create_Disconnected_iff:
  "fst (create eng dto s) = Inl DisconnectedPerson \<longleftrightarrow> disconnected dto \<and> rows s \<noteq> []"
  by (auto simp: create_def validateNotOrphan_cases split: sum.splits prod.splits
           dest: validateParents_errors validateParentDates_errors validateChildren_errors)

lemma create_first_person:
  assumes "disconnected dto" "rows s = []"
  shows "create eng dto s =
           (Inr ((entityOf dto)\<lparr>personId := nextId s, progenitor := True\<rparr>),
            \<lparr>rows = [(entityOf dto)\<lparr>personId := nextId s, progenitor := True\<rparr>],
             nextId = nextId s + 1\<rparr>)"
proof -
  have np: "validateParents s (c_fatherId dto) (c_motherId dto) = Inr ()"
    using assms(1)
    by (cases "c_fatherId dto"; cases "c_motherId dto")
       (auto simp: disconnected_def validateParents_def)
  have nd: "validateParentDates eng s b (c_fatherId dto) (c_motherId dto) = Inr ()" for b
    using assms(1)
    by (cases b; cases "c_fatherId dto"; cases "c_motherId dto")
       (auto simp: disconnected_def validateParentDates_def fatherChecks_def motherChecks_def)
  have nc: "validateChildren eng s (c_childrenIds dto) g b d = Inr []" for g b d
    using assms(1) by (auto simp: disconnected_def validateChildren_def)
  show ?thesis
    using assms np nd nc
    by (simp add: create_def validateNotOrphan_cases saveNew_def entityOf_def Let_def)
qed

text \<open>
  C9. \<open>create\<close> fails with \<open>DisconnectedPerson\<close> exactly when the payload is disconnected
  (no father id, no mother id, no child to link, no \<^verbatim>\<open>progenitor: true\<close>; an id is
  supplied when it is truthy, as the guard reads it) and the table already holds a person.
  On an empty table a disconnected payload is created, as the only row, under the next id,
  with \<open>progenitor = True\<close>.
\<close>

theorem create_connectivity_guard:
  "(fst (create eng dto s) = Inl DisconnectedPerson \<longleftrightarrow> disconnected dto \<and> rows s \<noteq> [])
   \<and> (disconnected dto \<and> rows s = [] \<longrightarrow>
        (\<exists>p. create eng dto s = (Inr p, \<lparr>rows = [p], nextId = nextId s + 1\<rparr>)
             \<and> progenitor p \<and> personId p = nextId s))"
proof (intro conjI impI)
  show "fst (create eng dto s) = Inl DisconnectedPerson \<longleftrightarrow> disconnected dto \<and> rows s \<noteq> []"
    by (rule create_Disconnected_iff)
next
  assume "disconnected dto \<and> rows s = []"
  then have "create eng dto s =
           (Inr ((entityOf dto)\<lparr>personId := nextId s, progenitor := True\<rparr>),
            \<lparr>rows = [(entityOf dto)\<lparr>personId := nextId s, progenitor := True\<rparr>],
             nextId = nextId s + 1\<rparr>)"
    by (simp add: create_first_person)
  then show "\<exists>p. create eng dto s = (Inr p, \<lparr>rows = [p], nextId = nextId s + 1\<rparr>)
                 \<and> progenitor p \<and> personId p = nextId s"
    by simp
qed

theorem create_connectivity_guard_witness:
  "disconnected blankDto \<and> rows emptyStore = []
   \<and> (\<exists>p. create utcEngine blankDto emptyStore = (Inr p, \<lparr>rows = [p], nextId = 2\<rparr>)
          \<and> progenitor p \<and> personId p = 1)
   \<and> rows fatherAndSon \<noteq> [] \<and> fst (create utcEngine blankDto fatherAndSon) = Inl DisconnectedPerson"
proof -
  have d: "disconnected blankDto"
    by (simp add: disconnected_def blankDto_def)
  have e: "rows emptyStore = []" "nextId emptyStore = 1"
    by (simp_all add: emptyStore_def)
  have n: "rows fatherAndSon \<noteq> []"
    by (simp add: fatherAndSon_def)
  show ?thesis
    using d e n create_connectivity_guard [where eng = utcEngine and dto = blankDto and s = emptyStore]
          create_connectivity_guard [where eng = utcEngine and dto = blankDto and s = fatherAndSon]
    by simp
qed

subsection \<open>Clearing a parent link\<close>

lemma objectAssign_clear_father:
  "objectAssign P (blankPatch\<lparr>u_fatherId := Null\<rparr>) = P\<lparr>fatherId := None\<rparr>"
  by (simp add: objectAssign_def blankPatch_def)

lemma objectAssign_clear_mother:
  "objectAssign P (blankPatch\<lparr>u_motherId := Null\<rparr>) = P\<lparr>motherId := None\<rparr>"
  by (simp add: objectAssign_def blankPatch_def)

text \<open>
  C10. For an existing person \<open>P\<close>, the update whose payload is \<^verbatim>\<open>{fatherId: null}\<close>
  (and likewise \<^verbatim>\<open>{motherId: null}\<close>) succeeds whatever the table holds: no validator
  can reject it. It returns \<open>P\<close> with that parent id cleared and every other field as it
  was, and the table it leaves differs from the old one in the row of \<open>P\<close>'s id only.
\<close>

theorem updatePerson_clear_parent:
  assumes "findOneBy s i = Some P"
  shows "updatePerson eng i (blankPatch\<lparr>u_fatherId := Null\<rparr>) s
           = (Inr (P\<lparr>fatherId := None\<rparr>),
              s\<lparr>rows := map (\<lambda>r. if personId r = i then P\<lparr>fatherId := None\<rparr> else r)
                           (rows s)\<rparr>)
       \<and> updatePerson eng i (blankPatch\<lparr>u_motherId := Null\<rparr>) s
           = (Inr (P\<lparr>motherId := None\<rparr>),
              s\<lparr>rows := map (\<lambda>r. if personId r = i then P\<lparr>motherId := None\<rparr> else r)
                           (rows s)\<rparr>)"
proof -
  have i: "personId P = i"
    using assms by (simp add: findOneBy_in_rows)
  have f: "updatePerson eng i (blankPatch\<lparr>u_fatherId := Null\<rparr>) s
           = (Inr (objectAssign P (blankPatch\<lparr>u_fatherId := Null\<rparr>)),
              saveExisting (objectAssign P (blankPatch\<lparr>u_fatherId := Null\<rparr>)) s)"
    using assms
    by (simp add: updatePerson_def findPersonById_def blankPatch_def cycleCheck_def Let_def)
  have m: "updatePerson eng i (blankPatch\<lparr>u_motherId := Null\<rparr>) s
           = (Inr (objectAssign P (blankPatch\<lparr>u_motherId := Null\<rparr>)),
              saveExisting (objectAssign P (blankPatch\<lparr>u_motherId := Null\<rparr>)) s)"
    using assms
    by (simp add: updatePerson_def findPersonById_def blankPatch_def cycleCheck_def Let_def)
  show ?thesis
    unfolding f m objectAssign_clear_father objectAssign_clear_mother
    by (simp add: saveExisting_def i)
qed

theorem updatePerson_clear_parent_witness:
  "findOneBy fatherAndSon 2 = Some ((person 2 Male)\<lparr>fatherId := Some 1\<rparr>)
   \<and> updatePerson utcEngine 2 (blankPatch\<lparr>u_fatherId := Null\<rparr>) fatherAndSon
       = (Inr (person 2 Male),
          \<lparr>rows = [(person 1 Male)\<lparr>progenitor := True\<rparr>, person 2 Male], nextId = 3\<rparr>)"
proof -
  have h: "findOneBy fatherAndSon 2 = Some ((person 2 Male)\<lparr>fatherId := Some 1\<rparr>)"
    by (simp add: findOneBy_def fatherAndSon_def person_def)
  show ?thesis
    using h updatePerson_clear_parent [OF h]
    by (simp add: fatherAndSon_def person_def)
qed

subsection \<open>Minimum parent age\<close>

lemma parentBirthCheck_years:
  assumes "extractYear eng c = Fin cy" "extractYear eng b = Fin py"
  shows "parentBirthCheck eng r c b =
           (if \<not> py < cy \<or> cy - py < 14 then Inl (ImplausibleAge r) else Inr ())"
proof (cases "py < cy")
  case True
  then have "jsLt (toDouble (cy - py)) (Fin 14) \<longleftrightarrow> cy - py < 14"
    by (intro jsLt_toDouble) auto
  with True assms show ?thesis by (simp add: parentBirthCheck_def Let_def)
next
  case False
  with assms show ?thesis by (simp add: parentBirthCheck_def Let_def)
qed

lemma fatherChecks_ImplausibleAge:
  assumes "p \<noteq> 0" "findOneBy s p = Some parent" "birthDate parent = Some pb" "pb \<noteq> []"
  shows "fatherChecks eng s c (Some p) = Inl (ImplausibleAge Father)
           \<longleftrightarrow> parentBirthCheck eng Father c pb = Inl (ImplausibleAge Father)"
  using assms
  by (auto simp: fatherChecks_def andThen_Inl whenStr_Inl dest: fatherDeathCheck_errors)

lemma motherChecks_ImplausibleAge:
  assumes "p \<noteq> 0" "findOneBy s p = Some parent" "birthDate parent = Some pb" "pb \<noteq> []"
  shows "motherChecks eng s c (Some p) = Inl (ImplausibleAge Mother)
           \<longleftrightarrow> parentBirthCheck eng Mother c pb = Inl (ImplausibleAge Mother)"
  using assms
  by (auto simp: motherChecks_def andThen_Inl whenStr_Inl dest: motherDeathCheck_errors)

lemma validateParentDates_father_age:
  assumes "c \<noteq> []"
  shows "validateParentDates eng s (Some c) f m = Inl (ImplausibleAge Father)
          \<longleftrightarrow> fatherChecks eng s c f = Inl (ImplausibleAge Father)"
  using assms by (auto simp: validateParentDates_def andThen_Inl dest: motherChecks_errors)

lemma validateParentDates_mother_age:
  assumes "c \<noteq> []"
  shows "validateParentDates eng s (Some c) f m = Inl (ImplausibleAge Mother)
          \<longleftrightarrow> fatherChecks eng s c f = Inr () \<and> motherChecks eng s c m = Inl (ImplausibleAge Mother)"
  using assms by (auto simp: validateParentDates_def andThen_Inl dest: fatherChecks_errors)

text \<open>A failure of the mother's checks is a failure of the validator, with the father's
  error when his checks, which run first, fail too.\<close>

lemma validateParentDates_mother_fails:
  assumes "c \<noteq> []" "motherChecks eng s c m = Inl e"
  shows "\<exists>e'. validateParentDates eng s (Some c) f m = Inl e'"
  using assms by (cases "fatherChecks eng s c f") (simp_all add: validateParentDates_def)

lemma create_temporal_error:
  assumes "\<not> disconnected dto"
      and "validateParents s (c_fatherId dto) (c_motherId dto) = Inr ()"
      and "validateParentDates eng s (c_birthDate dto) (c_fatherId dto) (c_motherId dto) = Inl e"
  shows "create eng dto s = (Inl e, s)"
  using assms by (simp add: create_def validateNotOrphan_cases)

lemma updatePerson_temporal_error:
  assumes "findOneBy s i = Some X"
      and "truthyStr (u_birthDate p) \<or> truthyNullable (u_fatherId p)
             \<or> truthyNullable (u_motherId p)"
      and "validateParents s (coalesce (u_fatherId p) None) (coalesce (u_motherId p) None)
             = Inr ()"
      and "validateParentDates eng s
             (case u_birthDate p of None \<Rightarrow> birthDate X | Some b \<Rightarrow> Some b)
             (coalesce (u_fatherId p) (fatherId X)) (coalesce (u_motherId p) (motherId X))
             = Inl e"
  shows "updatePerson eng i p s = (Inl e, s)"
proof -
  have c: "(truthyStr (u_birthDate p) \<or> truthyNullable (u_fatherId p)
              \<or> truthyNullable (u_motherId p)) = True"
    using assms(2) by simp
  have v: "(if truthyNullable (u_fatherId p) \<or> truthyNullable (u_motherId p)
            then validateParents s (coalesce (u_fatherId p) None) (coalesce (u_motherId p) None)
            else Inr ()) = Inr ()"
    using assms(3) by simp
  show ?thesis
    unfolding updatePerson_def findPersonById_def v c
    using assms(1,4) by simp
qed

lemma extractYear_examples:
  "extractYear eng ''1900'' = Fin 1900" "extractYear eng ''1902'' = Fin 1902"
  "extractYear eng ''1905'' = Fin 1905" "extractYear eng ''1920'' = Fin 1920"
  "extractYear eng ''1950'' = Fin 1950" "extractYear eng ''1951'' = Fin 1951"
  "extractYear eng ''1952'' = Fin 1952" "extractYear eng ''1910'' = Fin 1910"
  "extractYear eng ''1915'' = Fin 1915"
  by (simp_all add: extractYear_def parseInt_def isAsciiWhite_def isDigit_def toDouble_def)

text \<open>
  C6, as the claim words it, fails: the rule is not applied to each parent independently.
  The father's checks run first and the first failure ends the validation. With a father
  who died in 1900 and a mother born in 1910, a child born in 1915 is 5 years younger than
  the mother, and the mother's checks alone fail with \<open>ImplausibleAge\<close>; the validator,
  and \<open>create\<close>, fail with the father's \<open>ImplausibleDeathWindow\<close>.
\<close>

theorem minimum_parent_age_counterexample:
  "extractYear utcEngine ''1910'' = Fin 1910 \<and> extractYear utcEngine ''1915'' = Fin 1915
   \<and> motherChecks utcEngine died1900 ''1915'' (Some 2) = Inl (ImplausibleAge Mother)
   \<and> validateParentDates utcEngine died1900 (Some ''1915'') (Some 1) (Some 2)
       = Inl (ImplausibleDeathWindow Father)
   \<and> create utcEngine (childOf ''1915'') died1900
       = (Inl (ImplausibleDeathWindow Father), died1900)"
proof -
  let ?F = "(person 1 Male)\<lparr>progenitor := True, deathDate := Some ''1900''\<rparr>"
  let ?M = "(person 2 Female)\<lparr>birthDate := Some ''1910''\<rparr>"
  have f: "findOneBy died1900 1 = Some ?F" and m: "findOneBy died1900 2 = Some ?M"
    by (simp_all add: findOneBy_def died1900_def person_def)
  have y: "isYearOnly ''1900''"
    by (simp add: isYearOnly_def)
  have fc: "fatherChecks utcEngine died1900 ''1915'' (Some 1)
              = Inl (ImplausibleDeathWindow Father)"
    by (simp add: fatherChecks_def f person_def fatherDeathCheck_def y extractYear_examples
                  toDouble_exact)
  have mc: "motherChecks utcEngine died1900 ''1915'' (Some 2) = Inl (ImplausibleAge Mother)"
    by (simp add: motherChecks_def m person_def parentBirthCheck_years extractYear_examples)
  have v: "validateParentDates utcEngine died1900 (Some ''1915'') (Some 1) (Some 2)
             = Inl (ImplausibleDeathWindow Father)"
    by (simp add: validateParentDates_def fc)
  have c: "\<not> disconnected (childOf ''1915'')"
    by (simp add: disconnected_def childOf_def blankDto_def)
  have p: "validateParents died1900 (Some 1) (Some 2) = Inr ()"
    by (simp add: validateParents_def f m person_def)
  have d: "c_birthDate (childOf ''1915'') = Some ''1915''"
          "c_fatherId (childOf ''1915'') = Some 1" "c_motherId (childOf ''1915'') = Some 2"
    by (simp_all add: childOf_def)
  have "create utcEngine (childOf ''1915'') died1900
          = (Inl (ImplausibleDeathWindow Father), died1900)"
    by (rule create_temporal_error) (simp_all add: c p d v)
  with mc v show ?thesis by (simp add: extractYear_examples)
qed

text \<open>
  C6, amended. Let the child's birth date and the birth date of a resolved parent be
  present, with years that \<^verbatim>\<open>parseInt\<close> reads as the numbers \<open>cy\<close> and \<open>py\<close>. The
  validator fails with the father's \<open>ImplausibleAge\<close> exactly when \<open>py\<close> is not below
  \<open>cy\<close> or \<open>cy - py < 14\<close>; it fails with the mother's \<open>ImplausibleAge\<close> exactly when the
  father's checks, which run first, pass and the same condition holds of the mother; when
  the condition holds of the mother the validator fails in every case, with the father's
  error if his checks fail. \<open>create\<close> and \<open>updatePerson\<close> fail with the validator's error,
  the table unchanged, whenever they reach the validator and it fails.
\<close>

theorem minimum_parent_age:
  assumes "cbd \<noteq> []" "extractYear eng cbd = Fin cy"
      and "p \<noteq> 0" "findOneBy s p = Some parent"
      and "birthDate parent = Some pb" "pb \<noteq> []" "extractYear eng pb = Fin py"
  shows "(validateParentDates eng s (Some cbd) (Some p) mid = Inl (ImplausibleAge Father)
            \<longleftrightarrow> \<not> py < cy \<or> cy - py < 14)
       \<and> (validateParentDates eng s (Some cbd) fid (Some p) = Inl (ImplausibleAge Mother)
            \<longleftrightarrow> fatherChecks eng s cbd fid = Inr () \<and> (\<not> py < cy \<or> cy - py < 14))
       \<and> (\<not> py < cy \<or> cy - py < 14
            \<longrightarrow> (\<exists>e'. validateParentDates eng s (Some cbd) fid (Some p) = Inl e'))
       \<and> (\<not> disconnected dto
            \<and> validateParents s (c_fatherId dto) (c_motherId dto) = Inr ()
            \<and> validateParentDates eng s (c_birthDate dto) (c_fatherId dto) (c_motherId dto) = Inl e
            \<longrightarrow> create eng dto s = (Inl e, s))
       \<and> (findOneBy s i = Some X
            \<and> (truthyStr (u_birthDate patch) \<or> truthyNullable (u_fatherId patch)
                 \<or> truthyNullable (u_motherId patch))
            \<and> validateParents s (coalesce (u_fatherId patch) None)
                 (coalesce (u_motherId patch) None) = Inr ()
            \<and> validateParentDates eng s
                 (case u_birthDate patch of None \<Rightarrow> birthDate X | Some b \<Rightarrow> Some b)
                 (coalesce (u_fatherId patch) (fatherId X))
                 (coalesce (u_motherId patch) (motherId X)) = Inl e
            \<longrightarrow> updatePerson eng i patch s = (Inl e, s))"
proof (intro conjI impI)
  show "validateParentDates eng s (Some cbd) (Some p) mid = Inl (ImplausibleAge Father)
            \<longleftrightarrow> \<not> py < cy \<or> cy - py < 14"
    using assms
    by (simp add: validateParentDates_father_age fatherChecks_ImplausibleAge
                  parentBirthCheck_years)
  show "validateParentDates eng s (Some cbd) fid (Some p) = Inl (ImplausibleAge Mother)
            \<longleftrightarrow> fatherChecks eng s cbd fid = Inr () \<and> (\<not> py < cy \<or> cy - py < 14)"
    using assms
    by (simp add: validateParentDates_mother_age motherChecks_ImplausibleAge
                  parentBirthCheck_years)
  show "\<exists>e'. validateParentDates eng s (Some cbd) fid (Some p) = Inl e'"
    if "\<not> py < cy \<or> cy - py < 14"
  proof (rule validateParentDates_mother_fails [OF assms(1)])
    show "motherChecks eng s cbd (Some p) = Inl (ImplausibleAge Mother)"
      using assms that by (simp add: motherChecks_ImplausibleAge parentBirthCheck_years)
  qed
qed (simp_all add: create_temporal_error updatePerson_temporal_error)

theorem minimum_parent_age_witness:
  "validateParentDates utcEngine parents1900 (Some ''1905'') (Some 1) (Some 2)
     = Inl (ImplausibleAge Father)
   \<and> create utcEngine (childOf ''1905'') parents1900 = (Inl (ImplausibleAge Father), parents1900)
   \<and> validateParentDates utcEngine parents1900 (Some ''1920'') (Some 1) (Some 2)
       \<noteq> Inl (ImplausibleAge Father)
   \<and> validateParentDates utcEngine parents1900 (Some ''1920'') (Some 1) (Some 2)
       \<noteq> Inl (ImplausibleAge Mother)"
proof -
  let ?F = "(person 1 Male)\<lparr>progenitor := True, birthDate := Some ''1900''\<rparr>"
  let ?M = "(person 2 Female)\<lparr>birthDate := Some ''1902''\<rparr>"
  have f: "findOneBy parents1900 1 = Some ?F" and m: "findOneBy parents1900 2 = Some ?M"
    by (simp_all add: findOneBy_def parents1900_def person_def)
  have bf: "birthDate ?F = Some ''1900''" and bm: "birthDate ?M = Some ''1902''"
    by (simp_all add: person_def)
  have c: "\<not> disconnected (childOf ''1905'')"
    by (simp add: disconnected_def childOf_def blankDto_def)
  have v: "validateParents parents1900 (Some 1) (Some 2) = Inr ()"
    by (simp add: validateParents_def f m person_def)
  have d: "c_birthDate (childOf ''1905'') = Some ''1905''"
          "c_fatherId (childOf ''1905'') = Some 1" "c_motherId (childOf ''1905'') = Some 2"
    by (simp_all add: childOf_def)
  note young = minimum_parent_age [where eng = utcEngine and cbd = "''1905''" and cy = 1905
      and p = 1 and s = parents1900 and parent = ?F and pb = "''1900''" and py = 1900
      and mid = "Some 2" and dto = "childOf ''1905''" and e = "ImplausibleAge Father",
      OF _ extractYear_examples(3) _ f bf _ extractYear_examples(1)]
  note old = minimum_parent_age [where eng = utcEngine and cbd = "''1920''" and cy = 1920
      and p = 1 and s = parents1900 and parent = ?F and pb = "''1900''" and py = 1900
      and mid = "Some 2", OF _ extractYear_examples(4) _ f bf _ extractYear_examples(1)]
  note oldm = minimum_parent_age [where eng = utcEngine and cbd = "''1920''" and cy = 1920
      and p = 2 and s = parents1900 and parent = ?M and pb = "''1902''" and py = 1902
      and fid = "Some 1", OF _ extractYear_examples(4) _ m bm _ extractYear_examples(2)]
  show ?thesis
    using young old oldm c v d by simp
qed

subsection \<open>Death windows\<close>

lemma fatherDeathCheck_yearOnly:
  assumes "isYearOnly fd" "extractYear eng c = Fin cy" "extractYear eng fd = Fin dy"
      and "\<bar>dy\<bar> < 2 ^ 53"
  shows "fatherDeathCheck eng c fd =
           (if cy > dy + 1 then Inl (ImplausibleDeathWindow Father) else Inr ())"
proof -
  have "toDouble (dy + 1) = Fin (dy + 1)"
    using assms(4) by (intro toDouble_exact) simp
  with assms(1-3) show ?thesis by (simp add: fatherDeathCheck_def Let_def)
qed

lemma fatherChecks_DeathWindow:
  assumes "f \<noteq> 0" "findOneBy s f = Some father" "deathDate father = Some fd" "fd \<noteq> []"
  shows "fatherChecks eng s c (Some f) = Inl (ImplausibleDeathWindow Father)
           \<longleftrightarrow> whenStr (birthDate father) (parentBirthCheck eng Father c) = Inr ()
               \<and> fatherDeathCheck eng c fd = Inl (ImplausibleDeathWindow Father)"
  using assms
  by (auto simp: fatherChecks_def andThen_Inl whenStr_Inl dest: parentBirthCheck_errors)

lemma validateParentDates_father_window:
  assumes "c \<noteq> []"
  shows "validateParentDates eng s (Some c) f m = Inl (ImplausibleDeathWindow Father)
          \<longleftrightarrow> fatherChecks eng s c f = Inl (ImplausibleDeathWindow Father)"
  using assms by (auto simp: validateParentDates_def andThen_Inl dest: motherChecks_errors)

text \<open>
  C7. When the father's death date is year-only, with a year \<open>dy\<close> below \<open>2 ^ 53\<close> in
  magnitude (every \<^verbatim>\<open>YYYY\<close> is; from there on \<open>dy + 1\<close> is rounded), and the child has a
  birth date of year \<open>cy\<close>, the death-window check passes exactly when \<open>cy \<le> dy + 1\<close>;
  \<open>validateParentDates\<close> fails with the father's \<open>ImplausibleDeathWindow\<close> exactly when
  the check on the father's birth date, which runs first, passes and \<open>cy > dy + 1\<close>.
\<close>

theorem father_year_only_death_window:
  assumes "cbd \<noteq> []" "extractYear eng cbd = Fin cy"
      and "f \<noteq> 0" "findOneBy s f = Some father"
      and "deathDate father = Some fd" "fd \<noteq> []" "isYearOnly fd" "extractYear eng fd = Fin dy"
      and "\<bar>dy\<bar> < 2 ^ 53"
  shows "(fatherDeathCheck eng cbd fd = Inr () \<longleftrightarrow> cy \<le> dy + 1)
       \<and> (validateParentDates eng s (Some cbd) (Some f) mid = Inl (ImplausibleDeathWindow Father)
            \<longleftrightarrow> whenStr (birthDate father) (parentBirthCheck eng Father cbd) = Inr ()
                \<and> \<not> cy \<le> dy + 1)"
  using assms
  by (auto simp: validateParentDates_father_window fatherChecks_DeathWindow
                 fatherDeathCheck_yearOnly)

theorem father_year_only_death_window_witness:
  "fatherDeathCheck utcEngine ''1951'' ''1950'' = Inr ()
   \<and> validateParentDates utcEngine died1950 (Some ''1951'') (Some 1) None
       \<noteq> Inl (ImplausibleDeathWindow Father)
   \<and> fatherDeathCheck utcEngine ''1952'' ''1950'' \<noteq> Inr ()
   \<and> validateParentDates utcEngine died1950 (Some ''1952'') (Some 1) None
       = Inl (ImplausibleDeathWindow Father)"
proof -
  let ?F = "(person 1 Male)\<lparr>progenitor := True, deathDate := Some ''1950''\<rparr>"
  have f: "findOneBy died1950 1 = Some ?F"
    by (simp add: findOneBy_def died1950_def person_def)
  have d: "deathDate ?F = Some ''1950''" and b: "birthDate ?F = None"
    by (simp_all add: person_def)
  have y: "isYearOnly ''1950''"
    by (simp add: isYearOnly_def)
  note ok = father_year_only_death_window [where eng = utcEngine and cbd = "''1951''"
      and cy = 1951 and f = 1 and s = died1950 and father = ?F and fd = "''1950''"
      and dy = 1950 and mid = None,
      OF _ extractYear_examples(6) _ f d _ y extractYear_examples(5)]
  note late = father_year_only_death_window [where eng = utcEngine and cbd = "''1952''"
      and cy = 1952 and f = 1 and s = died1950 and father = ?F and fd = "''1950''"
      and dy = 1950 and mid = None,
      OF _ extractYear_examples(7) _ f d _ y extractYear_examples(5)]
  show ?thesis
    using ok late b by simp
qed

lemma isFullDate_not_yearOnly: "isFullDate d \<Longrightarrow> \<not> isYearOnly d"
  by (simp add: isFullDate_def isYearOnly_def)

lemma isFullDate_nonempty: "isFullDate d \<Longrightarrow> d \<noteq> []"
  by (auto simp: isFullDate_def)

lemma motherDeathCheck_full:
  assumes "isFullDate md" "isFullDate c"
  shows "motherDeathCheck eng c md =
           (if jsLt (newDate eng md) (newDate eng c) then Inl (ImplausibleDeathWindow Mother)
            else Inr ())"
  using assms by (simp add: motherDeathCheck_def Let_def isFullDate_not_yearOnly)

text \<open>An \<^verbatim>\<open>Invalid Date\<close> on either side compares false, and the pair is accepted.\<close>

lemma motherDeathCheck_invalid_date:
  assumes "isFullDate md" "isFullDate c" "newDate eng md = NaN \<or> newDate eng c = NaN"
  shows "motherDeathCheck eng c md = Inr ()"
  using assms by (auto simp: motherDeathCheck_full)

lemma motherChecks_DeathWindow:
  assumes "m \<noteq> 0" "findOneBy s m = Some mother" "deathDate mother = Some md" "md \<noteq> []"
  shows "motherChecks eng s c (Some m) = Inl (ImplausibleDeathWindow Mother)
           \<longleftrightarrow> whenStr (birthDate mother) (parentBirthCheck eng Mother c) = Inr ()
               \<and> motherDeathCheck eng c md = Inl (ImplausibleDeathWindow Mother)"
  using assms
  by (auto simp: motherChecks_def andThen_Inl whenStr_Inl dest: parentBirthCheck_errors)

lemma validateParentDates_mother_window:
  assumes "c \<noteq> []"
  shows "validateParentDates eng s (Some c) f m = Inl (ImplausibleDeathWindow Mother)
          \<longleftrightarrow> fatherChecks eng s c f = Inr ()
              \<and> motherChecks eng s c m = Inl (ImplausibleDeathWindow Mother)"
  using assms by (auto simp: validateParentDates_def andThen_Inl dest: fatherChecks_errors)

text \<open>The time values of three calendar dates, in milliseconds since 1970-01-01.\<close>

lemma newDate_examples:
  "newDate eng ''1920-01-01'' = Fin (- 1577923200000)"
  "newDate eng ''1950-01-01'' = Fin (- 631152000000)"
  "newDate eng ''1960-01-01'' = Fin (- 315619200000)"
  by (simp_all add: newDate_def isDigit_def daysInMonth_def daysFromCivil_def msPerDay_def)

lemma isFullDate_examples:
  "isFullDate ''1920-01-01''" "isFullDate ''1950-01-01''" "isFullDate ''1960-01-01''"
  by (simp_all add: isFullDate_def)

text \<open>
  C8, as the claim words it, fails. A child born on 1920-01-01 to a mother who died on
  1950-01-01 is born before her death, and the validator accepts the pair; a child born on
  1960-01-01 is not born before her death, and the validator rejects the pair.
\<close>

theorem mother_full_precision_counterexample:
  "jsLt (newDate utcEngine ''1920-01-01'') (newDate utcEngine ''1950-01-01'')
   \<and> validateParentDates utcEngine died1950 (Some ''1920-01-01'') None (Some 2) = Inr ()
   \<and> \<not> jsLt (newDate utcEngine ''1960-01-01'') (newDate utcEngine ''1950-01-01'')
   \<and> validateParentDates utcEngine died1950 (Some ''1960-01-01'') None (Some 2)
       = Inl (ImplausibleDeathWindow Mother)"
  by (simp add: validateParentDates_def died1950_def person_def fatherChecks_def
                motherChecks_def findOneBy_def motherDeathCheck_full isFullDate_examples
                newDate_examples)

text \<open>
  C8, amended. When the mother's death date and the child's birth date are both full dates,
  of time values \<open>dd\<close> and \<open>bd\<close> (for calendar dates \<^verbatim>\<open>YYYY-MM-DD\<close>, midnight UTC of the
  day; for any other string of three parts, what the engine reads), the death check fails
  exactly when the mother's death precedes the child's birth, \<open>dd < bd\<close>, and it accepts
  the pair otherwise; \<open>validateParentDates\<close> fails with the mother's
  \<open>ImplausibleDeathWindow\<close> exactly when the checks that run before (the father's, and the
  mother's birth date) pass and \<open>dd < bd\<close>.
\<close>

theorem mother_full_precision_death:
  assumes "m \<noteq> 0" "findOneBy s m = Some mother" "deathDate mother = Some md"
      and "isFullDate md" "isFullDate cbd" "newDate eng md = Fin dd" "newDate eng cbd = Fin bd"
  shows "(motherDeathCheck eng cbd md = Inl (ImplausibleDeathWindow Mother) \<longleftrightarrow> dd < bd)
       \<and> (motherDeathCheck eng cbd md = Inr () \<longleftrightarrow> bd \<le> dd)
       \<and> (validateParentDates eng s (Some cbd) fid (Some m) = Inl (ImplausibleDeathWindow Mother)
            \<longleftrightarrow> fatherChecks eng s cbd fid = Inr ()
                \<and> whenStr (birthDate mother) (parentBirthCheck eng Mother cbd) = Inr ()
                \<and> dd < bd)"
  using assms isFullDate_nonempty [of md] isFullDate_nonempty [of cbd]
  by (auto simp: validateParentDates_mother_window motherChecks_DeathWindow
                 motherDeathCheck_full)

theorem mother_full_precision_death_witness:
  "motherDeathCheck utcEngine ''1960-01-01'' ''1950-01-01'' = Inl (ImplausibleDeathWindow Mother)
   \<and> motherDeathCheck utcEngine ''1920-01-01'' ''1950-01-01'' = Inr ()
   \<and> motherDeathCheck utcEngine ''1950-01-01'' ''1950-01-01'' = Inr ()"
proof -
  let ?M = "(person 2 Female)\<lparr>deathDate := Some ''1950-01-01''\<rparr>"
  have m: "findOneBy died1950 2 = Some ?M"
    by (simp add: findOneBy_def died1950_def person_def)
  have d: "deathDate ?M = Some ''1950-01-01''"
    by (simp add: person_def)
  note after = mother_full_precision_death [where eng = utcEngine and m = 2 and s = died1950
      and mother = ?M and md = "''1950-01-01''" and cbd = "''1960-01-01''",
      OF _ m d isFullDate_examples(2) isFullDate_examples(3)
         newDate_examples(2) newDate_examples(3)]
  note before = mother_full_precision_death [where eng = utcEngine and m = 2 and s = died1950
      and mother = ?M and md = "''1950-01-01''" and cbd = "''1920-01-01''",
      OF _ m d isFullDate_examples(2) isFullDate_examples(1)
         newDate_examples(2) newDate_examples(1)]
  note same = mother_full_precision_death [where eng = utcEngine and m = 2 and s = died1950
      and mother = ?M and md = "''1950-01-01''" and cbd = "''1950-01-01''",
      OF _ m d isFullDate_examples(2) isFullDate_examples(2)
         newDate_examples(2) newDate_examples(2)]
  show ?thesis
    using after before same by simp
qed

subsection \<open>Role and gender of a parent\<close>

lemma validateParents_father_wrong:
  assumes "f \<noteq> 0" "findOneBy s f = Some q" "gender q = Female"
  shows "validateParents s (Some f) m = Inl (InvalidRole Father)"
  using assms by (simp add: validateParents_def)

lemma validateParents_father_missing:
  assumes "f \<noteq> 0" "findOneBy s f = None"
  shows "validateParents s (Some f) m = Inl NotFound"
  using assms by (simp add: validateParents_def)

lemma validateParents_mother_wrong:
  assumes "m \<noteq> 0" "findOneBy s m = Some q" "gender q = Male"
  shows "validateParents s f (Some m) =
           (case validateParents s f None of Inl e \<Rightarrow> Inl e | Inr _ \<Rightarrow> Inl (InvalidRole Mother))"
  using assms by (cases f) (auto simp: validateParents_def split: option.splits)

lemma validateParents_Inl_truthy:
  "validateParents s f m = Inl e \<Longrightarrow> truthyNum f \<or> truthyNum m"
  by (cases f; cases m) (auto simp: validateParents_def split: if_splits)

lemma create_relationship_error:
  assumes "validateParents s (c_fatherId dto) (c_motherId dto) = Inl e"
  shows "create eng dto s = (Inl e, s)"
proof -
  have "\<not> disconnected dto"
    using validateParents_Inl_truthy [OF assms] by (auto simp: disconnected_def)
  then show ?thesis
    using assms by (simp add: create_def validateNotOrphan_cases)
qed

lemma truthyNullable_coalesce: "truthyNullable x = truthyNum (coalesce x None)"
  by (cases x) auto

lemma updatePerson_relationship_error:
  assumes "findOneBy s i = Some X"
      and "validateParents s (coalesce (u_fatherId p) None) (coalesce (u_motherId p) None) = Inl e"
  shows "updatePerson eng i p s = (Inl e, s)"
proof -
  have "truthyNullable (u_fatherId p) \<or> truthyNullable (u_motherId p)"
    using validateParents_Inl_truthy [OF assms(2)] by (simp add: truthyNullable_coalesce)
  then have g: "(truthyNullable (u_fatherId p) \<or> truthyNullable (u_motherId p)) = True"
    by simp
  show ?thesis
    unfolding updatePerson_def findPersonById_def g
    using assms by simp
qed

text \<open>
  C5, as the claim words it, fails. Person 2 of the table is male, and nobody has id 99.
  A creation payload with \<^verbatim>\<open>motherId: 2\<close> and \<^verbatim>\<open>fatherId: 99\<close> fails with
  \<open>NotFound\<close>, the father being checked first; an update of person 99 with
  \<^verbatim>\<open>motherId: 2\<close> fails with \<open>NotFound\<close> too, the person to update being looked up
  before the payload is validated. Neither fails with \<open>InvalidRole\<close>.
\<close>

theorem role_gender_counterexample:
  "findOneBy fatherAndSon 2 = Some ((person 2 Male)\<lparr>fatherId := Some 1\<rparr>)
   \<and> findOneBy fatherAndSon 99 = None
   \<and> create utcEngine (blankDto\<lparr>c_fatherId := Some 99, c_motherId := Some 2\<rparr>) fatherAndSon
       = (Inl NotFound, fatherAndSon)
   \<and> updatePerson utcEngine 99 (blankPatch\<lparr>u_motherId := Value 2\<rparr>) fatherAndSon
       = (Inl NotFound, fatherAndSon)"
  by (simp add: create_def updatePerson_def findPersonById_def validateNotOrphan_def
                validateParents_def findOneBy_def fatherAndSon_def person_def blankDto_def
                blankPatch_def)

text \<open>
  C5, amended. Let \<open>x\<close> be a non-zero id. A \<open>create\<close> whose \<^verbatim>\<open>fatherId\<close> is \<open>x\<close>
  fails with the father's \<open>InvalidRole\<close> when \<open>x\<close> is a female person, and with
  \<open>NotFound\<close> when \<open>x\<close> is nobody. A \<open>create\<close> whose \<^verbatim>\<open>motherId\<close> is \<open>x\<close>, a male
  person, fails; it fails with the mother's \<open>InvalidRole\<close> when the check of the father id,
  which runs first, passes (no father id, or a male person), and with the father's error
  (\<open>NotFound\<close> or \<open>InvalidRole\<close>) otherwise. The same holds of \<open>updatePerson\<close> on an
  existing person. In all these cases the table is unchanged.
\<close>

theorem role_gender_consistency:
  assumes "x \<noteq> 0"
  shows "(c_fatherId dto = Some x \<and> findOneBy s x = Some q \<and> gender q = Female
            \<longrightarrow> create eng dto s = (Inl (InvalidRole Father), s))
       \<and> (c_fatherId dto = Some x \<and> findOneBy s x = None
            \<longrightarrow> create eng dto s = (Inl NotFound, s))
       \<and> (c_motherId dto = Some x \<and> findOneBy s x = Some q \<and> gender q = Male
            \<longrightarrow> (\<exists>e. create eng dto s = (Inl e, s)
                     \<and> (e = InvalidRole Mother \<or> e = InvalidRole Father \<or> e = NotFound))
              \<and> (validateParents s (c_fatherId dto) None = Inr ()
                    \<longrightarrow> create eng dto s = (Inl (InvalidRole Mother), s)))
       \<and> (findOneBy s i = Some X \<and> u_fatherId patch = Value x
            \<and> findOneBy s x = Some q \<and> gender q = Female
            \<longrightarrow> updatePerson eng i patch s = (Inl (InvalidRole Father), s))
       \<and> (findOneBy s i = Some X \<and> u_fatherId patch = Value x \<and> findOneBy s x = None
            \<longrightarrow> updatePerson eng i patch s = (Inl NotFound, s))
       \<and> (findOneBy s i = Some X \<and> u_motherId patch = Value x
            \<and> findOneBy s x = Some q \<and> gender q = Male
            \<longrightarrow> (\<exists>e. updatePerson eng i patch s = (Inl e, s)
                     \<and> (e = InvalidRole Mother \<or> e = InvalidRole Father \<or> e = NotFound))
              \<and> (validateParents s (coalesce (u_fatherId patch) None) None = Inr ()
                    \<longrightarrow> updatePerson eng i patch s = (Inl (InvalidRole Mother), s)))"
proof (intro conjI impI; (elim conjE)?)
  assume "c_fatherId dto = Some x" "findOneBy s x = Some q" "gender q = Female"
  then show "create eng dto s = (Inl (InvalidRole Father), s)"
    using assms by (simp add: create_relationship_error validateParents_father_wrong)
next
  assume "c_fatherId dto = Some x" "findOneBy s x = None"
  then show "create eng dto s = (Inl NotFound, s)"
    using assms by (simp add: create_relationship_error validateParents_father_missing)
next
  assume a: "c_motherId dto = Some x" "findOneBy s x = Some q" "gender q = Male"
  show "\<exists>e. create eng dto s = (Inl e, s)
            \<and> (e = InvalidRole Mother \<or> e = InvalidRole Father \<or> e = NotFound)"
  proof (cases "validateParents s (c_fatherId dto) None")
    case (Inl e)
    then have "e = NotFound \<or> e = InvalidRole Father \<or> e = InvalidRole Mother"
      by (rule validateParents_errors)
    then show ?thesis
      using assms a Inl
      by (auto simp: create_relationship_error validateParents_mother_wrong)
  next
    case (Inr u)
    then show ?thesis
      using assms a by (simp add: create_relationship_error validateParents_mother_wrong)
  qed
  assume "validateParents s (c_fatherId dto) None = Inr ()"
  then show "create eng dto s = (Inl (InvalidRole Mother), s)"
    using assms a by (simp add: create_relationship_error validateParents_mother_wrong)
next
  assume "findOneBy s i = Some X" "u_fatherId patch = Value x"
         "findOneBy s x = Some q" "gender q = Female"
  then show "updatePerson eng i patch s = (Inl (InvalidRole Father), s)"
    using assms by (simp add: updatePerson_relationship_error validateParents_father_wrong)
next
  assume "findOneBy s i = Some X" "u_fatherId patch = Value x" "findOneBy s x = None"
  then show "updatePerson eng i patch s = (Inl NotFound, s)"
    using assms by (simp add: updatePerson_relationship_error validateParents_father_missing)
next
  assume a: "findOneBy s i = Some X" "u_motherId patch = Value x"
            "findOneBy s x = Some q" "gender q = Male"
  show "\<exists>e. updatePerson eng i patch s = (Inl e, s)
            \<and> (e = InvalidRole Mother \<or> e = InvalidRole Father \<or> e = NotFound)"
  proof (cases "validateParents s (coalesce (u_fatherId patch) None) None")
    case (Inl e)
    then have "e = NotFound \<or> e = InvalidRole Father \<or> e = InvalidRole Mother"
      by (rule validateParents_errors)
    then show ?thesis
      using assms a Inl
      by (auto simp: updatePerson_relationship_error validateParents_mother_wrong)
  next
    case (Inr u)
    then show ?thesis
      using assms a
      by (simp add: updatePerson_relationship_error validateParents_mother_wrong)
  qed
  assume "validateParents s (coalesce (u_fatherId patch) None) None = Inr ()"
  then show "updatePerson eng i patch s = (Inl (InvalidRole Mother), s)"
    using assms a by (simp add: updatePerson_relationship_error validateParents_mother_wrong)
qed

theorem role_gender_consistency_witness:
  "create utcEngine (blankDto\<lparr>c_fatherId := Some 2\<rparr>) parents1900
     = (Inl (InvalidRole Father), parents1900)
   \<and> create utcEngine (blankDto\<lparr>c_fatherId := Some 99\<rparr>) parents1900 = (Inl NotFound, parents1900)
   \<and> create utcEngine (blankDto\<lparr>c_motherId := Some 1\<rparr>) parents1900
       = (Inl (InvalidRole Mother), parents1900)
   \<and> updatePerson utcEngine 1 (blankPatch\<lparr>u_fatherId := Value 2\<rparr>) parents1900
       = (Inl (InvalidRole Father), parents1900)
   \<and> updatePerson utcEngine 2 (blankPatch\<lparr>u_motherId := Value 1\<rparr>) parents1900
       = (Inl (InvalidRole Mother), parents1900)"
proof -
  let ?F = "(person 1 Male)\<lparr>progenitor := True, birthDate := Some ''1900''\<rparr>"
  let ?M = "(person 2 Female)\<lparr>birthDate := Some ''1902''\<rparr>"
  have f: "findOneBy parents1900 1 = Some ?F" and m: "findOneBy parents1900 2 = Some ?M"
    and n: "findOneBy parents1900 99 = None"
    by (simp_all add: findOneBy_def parents1900_def person_def)
  have g: "gender ?F = Male" "gender ?M = Female"
    by (simp_all add: person_def)
  have v: "validateParents parents1900 None None = Inr ()"
    by (simp add: validateParents_def)
  note a = role_gender_consistency [where x = 2 and s = parents1900 and q = ?M
      and dto = "blankDto\<lparr>c_fatherId := Some 2\<rparr>" and i = 1 and X = ?F
      and patch = "blankPatch\<lparr>u_fatherId := Value 2\<rparr>"]
  note b = role_gender_consistency [where x = 99 and s = parents1900
      and dto = "blankDto\<lparr>c_fatherId := Some 99\<rparr>"]
  note c = role_gender_consistency [where x = 1 and s = parents1900 and q = ?F
      and dto = "blankDto\<lparr>c_motherId := Some 1\<rparr>" and i = 2 and X = ?M
      and patch = "blankPatch\<lparr>u_motherId := Value 1\<rparr>"]
  show ?thesis
    using a b c f m n g v by (simp add: blankDto_def blankPatch_def)
qed

subsection \<open>Well-formed tables\<close>

lemma findOneBy_wf:
  "wf_store s \<Longrightarrow> findOneBy s i = Some p \<Longrightarrow> 0 < i \<and> i < nextId s"
  by (auto simp: wf_store_def list_all_iff dest!: findOneBy_in_rows)

lemma findOneBy_fresh: "wf_store s \<Longrightarrow> findOneBy s (nextId s) = None"
  using findOneBy_wf [of s "nextId s"] by (cases "findOneBy s (nextId s)") auto

lemma setParent_id [simp]: "personId (setParent g n r) = personId r"
  by (simp add: setParent_def)

lemma demote_id [simp]: "personId (demote r n p) = personId p"
  by (simp add: demote_def)

lemma objectAssign_id [simp]: "personId (objectAssign p d) = personId p"
  by (simp add: objectAssign_def)

lemma updateById_ids:
  "(\<And>r. personId (f r) = personId r) \<Longrightarrow> map personId (rows (updateById i f s)) = map personId (rows s)"
  by (simp add: updateById_def comp_def cong: map_cong)

lemma wf_store_alt:
  "wf_store s \<longleftrightarrow>
     0 < nextId s \<and> list_all (\<lambda>i. 0 < i \<and> i < nextId s) (map personId (rows s))
     \<and> distinct (map personId (rows s))"
  by (simp add: wf_store_def list_all_iff)

lemma wf_store_ids:
  "nextId s' = nextId s \<Longrightarrow> map personId (rows s') = map personId (rows s)
     \<Longrightarrow> wf_store s \<Longrightarrow> wf_store s'"
  by (simp add: wf_store_alt)

lemma wf_updateById:
  "(\<And>r. personId (f r) = personId r) \<Longrightarrow> wf_store s \<Longrightarrow> wf_store (updateById i f s)"
  by (rule wf_store_ids [where s = s]) (simp_all add: updateById_ids, simp add: updateById_def)

lemma wf_saveExisting:
  "personId p' = i \<Longrightarrow> wf_store s \<Longrightarrow> wf_store (saveExisting p' s)"
  by (rule wf_store_ids [where s = s]) (auto simp: saveExisting_def)

lemma wf_saveNew: "wf_store s \<Longrightarrow> saveNew p s = (p', s1) \<Longrightarrow> wf_store s1"
  by (fastforce simp: wf_store_def saveNew_def Let_def list_all_iff)

lemma wf_removeRow: "wf_store s \<Longrightarrow> wf_store (removeRow p s)"
  by (auto simp: wf_store_def removeRow_def list_all_iff distinct_map_filter)

lemma wf_link: "wf_store s \<Longrightarrow> wf_store (linkChildrenToParentInternal parent children s)"
  unfolding linkChildrenToParentInternal_def
  by (induction children arbitrary: s) (simp_all add: wf_updateById)

lemma wf_create: "wf_store s \<Longrightarrow> wf_store (snd (create eng dto s))"
  by (auto simp: create_def split: sum.splits prod.splits intro: wf_link dest: wf_saveNew)

lemma wf_updatePerson: "wf_store s \<Longrightarrow> wf_store (snd (updatePerson eng i dto s))"
  by (auto simp: updatePerson_def Let_def wf_saveExisting split: sum.splits)

lemma wf_linkChildrenToParent: "wf_store s \<Longrightarrow> wf_store (snd (linkChildrenToParent eng i cs r s))"
  by (auto simp: linkChildrenToParent_def wf_link split: option.splits sum.splits)

lemma wf_removePerson: "wf_store s \<Longrightarrow> wf_store (snd (removePerson i s))"
  by (auto simp: removePerson_def wf_removeRow split: sum.splits)

lemma promoteAncestor_cases:
  "promoteAncestor flt dto s = (Inr new, s') \<Longrightarrow>
     flt = NoFault
     \<and> (\<exists>cur. findProgenitor s = Some cur \<and> personId cur = a_currentProgenitorId dto)
     \<and> a_gender dto = expectedGender (a_relationship dto)
     \<and> new = (ancestorOf dto)\<lparr>personId := nextId s\<rparr>
     \<and> s' = updateById (a_currentProgenitorId dto) (demote (a_relationship dto) (nextId s))
               (snd (saveNew (ancestorOf dto) s))"
  by (cases flt)
     (auto simp: promoteAncestor_def promotionBody_def startTransaction_def commitTransaction_def
        rollbackTransaction_def saveNew_def Let_def split: option.splits if_splits)

lemma promoteAncestor_failure:
  "promoteAncestor flt dto s = (Inl e, s') \<Longrightarrow> s' = s"
  by (auto simp: promoteAncestor_def promotionBody_def startTransaction_def commitTransaction_def
        rollbackTransaction_def saveNew_def Let_def split: option.splits if_splits)

lemma wf_promoteAncestor: "wf_store s \<Longrightarrow> wf_store (snd (promoteAncestor flt dto s))"
proof -
  assume w: "wf_store s"
  obtain r s' where p: "promoteAncestor flt dto s = (r, s')"
    by (cases "promoteAncestor flt dto s")
  show ?thesis
  proof (cases r)
    case (Inl e)
    with p w show ?thesis using promoteAncestor_failure [of flt dto s e s'] by simp
  next
    case (Inr new)
    with p have "s' = updateById (a_currentProgenitorId dto)
                        (demote (a_relationship dto) (nextId s)) (snd (saveNew (ancestorOf dto) s))"
      using promoteAncestor_cases [of flt dto s new s'] by simp
    moreover have "wf_store (snd (saveNew (ancestorOf dto) s))"
      using w wf_saveNew [of s "ancestorOf dto"] by (cases "saveNew (ancestorOf dto) s") auto
    ultimately show ?thesis
      using p by (simp add: wf_updateById)
  qed
qed

lemma wf_commit: "wf_store s \<Longrightarrow> wf_store (commit eng m s)"
  by (cases m) (simp_all add: wf_create wf_updatePerson wf_linkChildrenToParent wf_removePerson wf_promoteAncestor)


lemma nsp_updateById_setParent:
  "noSelfParent s \<Longrightarrow> i \<noteq> n \<Longrightarrow> noSelfParent (updateById i (setParent g n) s)"
  by (auto simp: noSelfParent_def updateById_def list_all_iff setParent_def)

lemma nsp_link:
  "noSelfParent s \<Longrightarrow> list_all (\<lambda>c. personId c \<noteq> personId parent) children
     \<Longrightarrow> noSelfParent (linkChildrenToParentInternal parent children s)"
  unfolding linkChildrenToParentInternal_def
  by (induction children arbitrary: s) (simp_all add: nsp_updateById_setParent)

lemma validateChildren_rows:
  "validateChildren eng s ids g b d = Inr cs
     \<Longrightarrow> list_all (\<lambda>c. c \<in> set (rows s) \<and> (\<exists>l. ids = Some l \<and> personId c \<in> set l)) cs"
  by (auto simp: validateChildren_def findBy_def Let_def list_all_iff
           split: option.splits if_splits sum.splits)

lemma validateParents_ok_fresh:
  assumes "wf_store s" "validateParents s f m = Inr ()"
  shows "f \<noteq> Some (nextId s) \<and> m \<noteq> Some (nextId s)"
proof -
  have z: "nextId s \<noteq> 0" and n: "findOneBy s (nextId s) = None"
    using assms(1) by (simp_all add: wf_store_def findOneBy_fresh)
  show ?thesis
    using assms(2) z n
    by (cases f; cases m) (auto simp: validateParents_def andThen_Inr split: if_splits option.splits)
qed

lemma nsp_saveNew:
  assumes "noSelfParent s" "fatherId p \<noteq> Some (nextId s)" "motherId p \<noteq> Some (nextId s)"
      and "saveNew p s = (p', s1)"
  shows "noSelfParent s1"
  using assms by (auto simp: noSelfParent_def saveNew_def Let_def)

lemma validateNotOrphan_parents:
  "validateNotOrphan s dto = Inr dto'
     \<Longrightarrow> c_fatherId dto' = c_fatherId dto \<and> c_motherId dto' = c_motherId dto
         \<and> c_childrenIds dto' = c_childrenIds dto"
  by (auto simp: validateNotOrphan_cases split: if_splits)

lemma saveNew_id: "saveNew p s = (p', s1) \<Longrightarrow> personId p' = nextId s \<and> gender p' = gender p"
  by (auto simp: saveNew_def Let_def)

lemma nsp_create:
  assumes "wf_store s" "noSelfParent s"
  shows "noSelfParent (snd (create eng dto s))"
proof (cases "create eng dto s")
  case (Pair r s')
  show ?thesis
  proof (cases r)
    case (Inl e)
    then have "s' = s"
      using Pair by (auto simp: create_def split: sum.splits prod.splits)
    then show ?thesis using Pair assms by simp
  next
    case (Inr new)
    then obtain dto' cs s1 where
      o: "validateNotOrphan s dto = Inr dto'"
      and v: "validateParents s (c_fatherId dto') (c_motherId dto') = Inr ()"
      and c: "validateChildren eng s (c_childrenIds dto') (c_gender dto') (c_birthDate dto')
                (c_deathDate dto') = Inr cs"
      and n: "saveNew (entityOf dto') s = (new, s1)"
      and s': "s' = (if length cs > 0 then linkChildrenToParentInternal new cs s1 else s1)"
      using Pair by (auto simp: create_def split: sum.splits prod.splits)
    have f: "fatherId (entityOf dto') \<noteq> Some (nextId s)" "motherId (entityOf dto') \<noteq> Some (nextId s)"
      using validateParents_ok_fresh [OF assms(1) v] by (simp_all add: entityOf_def)
    have n1: "noSelfParent s1"
      using nsp_saveNew [OF assms(2) f n] .
    have "list_all (\<lambda>c. personId c \<noteq> personId new) cs"
      using validateChildren_rows [OF c] assms(1) saveNew_id [OF n]
      by (fastforce simp: list_all_iff wf_store_def)
    then have "noSelfParent (linkChildrenToParentInternal new cs s1)"
      using n1 by (rule nsp_link [rotated])
    with n1 s' Pair show ?thesis by simp
  qed
qed

lemma nsp_saveExisting:
  assumes "noSelfParent s" "fatherId p' \<noteq> Some (personId p')" "motherId p' \<noteq> Some (personId p')"
  shows "noSelfParent (saveExisting p' s)"
  using assms by (auto simp: noSelfParent_def saveExisting_def list_all_iff)

lemma nsp_updatePerson:
  assumes "noSelfParent s"
  shows "noSelfParent (snd (updatePerson eng i dto s))"
proof (cases "updatePerson eng i dto s")
  case (Pair r s')
  show ?thesis
  proof (cases r)
    case (Inl e)
    then have "s' = s"
      using Pair by (auto simp: updatePerson_def Let_def split: sum.splits if_splits)
    then show ?thesis using Pair assms by simp
  next
    case (Inr new)
    then obtain person where
      p: "findOneBy s i = Some person"
      and c: "u_fatherId dto \<noteq> Value i" "u_motherId dto \<noteq> Value i"
      and s': "s' = saveExisting (objectAssign person dto) s"
      using Pair
      by (auto simp: updatePerson_def findPersonById_def Let_def split: sum.splits if_splits option.splits)
    have i: "personId person = i" "person \<in> set (rows s)"
      using p by (simp_all add: findOneBy_in_rows)
    then have old: "fatherId person \<noteq> Some i" "motherId person \<noteq> Some i"
      using assms by (auto simp: noSelfParent_def list_all_iff)
    have "fatherId (objectAssign person dto) \<noteq> Some i" "motherId (objectAssign person dto) \<noteq> Some i"
      using c old
      by (cases "u_fatherId dto"; cases "u_motherId dto"; simp add: objectAssign_def)+
    then show ?thesis
      using Pair s' i assms by (simp add: nsp_saveExisting)
  qed
qed

lemma nsp_linkChildrenToParent:
  assumes "noSelfParent s"
  shows "noSelfParent (snd (linkChildrenToParent eng i cs r s))"
proof (cases "linkChildrenToParent eng i cs r s")
  case (Pair res s')
  show ?thesis
  proof (cases res)
    case (Inl e)
    then have "s' = s"
      using Pair by (auto simp: linkChildrenToParent_def split: option.splits sum.splits if_splits)
    then show ?thesis using Pair assms by simp
  next
    case (Inr k)
    then obtain parent children where
      p: "findOneBy s i = Some parent" and n: "i \<notin> set cs"
      and c: "validateChildren eng s (Some cs) (gender parent) (birthDate parent) (deathDate parent) = Inr children"
      and s': "s' = linkChildrenToParentInternal parent children s"
      using Pair by (auto simp: linkChildrenToParent_def split: option.splits sum.splits if_splits)
    have "personId parent = i"
      using p by (simp add: findOneBy_in_rows)
    then have "list_all (\<lambda>c. personId c \<noteq> personId parent) children"
      using validateChildren_rows [OF c] n by (auto simp: list_all_iff)
    then show ?thesis
      using Pair s' assms by (simp add: nsp_link)
  qed
qed

lemma nsp_removePerson: "noSelfParent s \<Longrightarrow> noSelfParent (snd (removePerson i s))"
  by (auto simp: removePerson_def removeRow_def noSelfParent_def list_all_iff split: sum.splits)

lemma findProgenitor_in_rows: "findProgenitor s = Some p \<Longrightarrow> p \<in> set (rows s) \<and> progenitor p"
  by (auto simp: findProgenitor_def find_Some_iff)

lemma nsp_promoteAncestor:
  assumes "wf_store s" "noSelfParent s"
  shows "noSelfParent (snd (promoteAncestor flt dto s))"
proof -
  obtain r s' where p: "promoteAncestor flt dto s = (r, s')"
    by (cases "promoteAncestor flt dto s")
  show ?thesis
  proof (cases r)
    case (Inl e)
    with p assms show ?thesis using promoteAncestor_failure [of flt dto s e s'] by simp
  next
    case (Inr new)
    then obtain cur where
      c: "findProgenitor s = Some cur" "personId cur = a_currentProgenitorId dto"
      and s': "s' = updateById (a_currentProgenitorId dto)
                        (demote (a_relationship dto) (nextId s)) (snd (saveNew (ancestorOf dto) s))"
      using p promoteAncestor_cases [of flt dto s new s'] by auto
    have "a_currentProgenitorId dto < nextId s"
      using c assms(1) findProgenitor_in_rows [of s cur] by (auto simp: wf_store_def list_all_iff)
    then show ?thesis
      using assms(2) p s'
      by (auto simp: noSelfParent_def updateById_def saveNew_def Let_def list_all_iff
                     demote_def ancestorOf_def)
  qed
qed

lemma nsp_commit: "wf_store s \<Longrightarrow> noSelfParent s \<Longrightarrow> noSelfParent (commit eng m s)"
  by (cases m) (simp_all add: nsp_create nsp_updatePerson nsp_linkChildrenToParent
                  nsp_removePerson nsp_promoteAncestor)

lemma invariants_fold:
  "wf_store s \<Longrightarrow> noSelfParent s \<Longrightarrow> wf_store (fold (commit eng) ms s) \<and> noSelfParent (fold (commit eng) ms s)"
  by (induction ms arbitrary: s) (simp_all add: wf_commit nsp_commit)

subsection \<open>Ancestor promotion\<close>

lemma find_map_keep_id:
  "(\<And>r. personId (g r) = personId r)
     \<Longrightarrow> find (\<lambda>p. personId p = i) (map g xs) = map_option g (find (\<lambda>p. personId p = i) xs)"
  by (induction xs) simp_all

lemma findOneBy_updateById:
  assumes "\<And>r. personId (f r) = personId r"
  shows "findOneBy (updateById i f s) j
           = map_option (\<lambda>r. if personId r = i then f r else r) (findOneBy s j)"
  unfolding findOneBy_def updateById_def
  using assms by (simp add: find_map_keep_id)

lemma find_snoc:
  "find P (xs @ [y]) = (case find P xs of None \<Rightarrow> (if P y then Some y else None) | Some x \<Rightarrow> Some x)"
  by (induction xs) simp_all

lemma findOneBy_saveNew:
  assumes "wf_store s"
  shows "findOneBy (snd (saveNew p s)) j
           = (if j = nextId s then Some (p\<lparr>personId := nextId s\<rparr>) else findOneBy s j)"
  using findOneBy_fresh [OF assms]
  by (auto simp: findOneBy_def saveNew_def Let_def find_snoc split: option.splits)

lemma findOneBy_row:
  assumes "wf_store s" "p \<in> set (rows s)"
  shows "findOneBy s (personId p) = Some p"
proof -
  have d: "distinct (map personId (rows s))"
    using assms(1) by (simp add: wf_store_def)
  obtain q where q: "findOneBy s (personId p) = Some q"
    using assms(2) by (cases "findOneBy s (personId p)") (auto simp: findOneBy_def find_None_iff)
  then have "q \<in> set (rows s)" "personId q = personId p"
    by (simp_all add: findOneBy_in_rows)
  with d assms(2) have "q = p"
    by (meson distinct_map inj_onD)
  with q show ?thesis by simp
qed


lemma promoteAncestor_fault:
  "flt \<noteq> NoFault \<Longrightarrow> \<exists>e. promoteAncestor flt dto s = (Inl e, s)"
  by (cases flt; cases "findProgenitor s")
     (simp_all add: promoteAncestor_def promotionBody_def startTransaction_def
                   rollbackTransaction_def saveNew_def Let_def)

lemma promoteAncestor_succeeds:
  assumes "findProgenitor s = Some cur" "personId cur = a_currentProgenitorId dto"
      and "a_gender dto = expectedGender (a_relationship dto)"
  shows "\<exists>new s'. promoteAncestor NoFault dto s = (Inr new, s')"
  using assms
  by (simp add: promoteAncestor_def promotionBody_def startTransaction_def
                   commitTransaction_def saveNew_def Let_def)

lemma promoteAncestor_success:
  assumes "wf_store s" "promoteAncestor flt dto s = (Inr new, s')"
  shows "\<exists>old. findOneBy s (a_currentProgenitorId dto) = Some old \<and> progenitor old
                \<and> findOneBy s (personId new) = None
                \<and> findOneBy s' (personId new) = Some new \<and> progenitor new
                \<and> findOneBy s' (a_currentProgenitorId dto)
                    = Some (if a_relationship dto = Father
                            then old\<lparr>progenitor := False, fatherId := Some (personId new)\<rparr>
                            else old\<lparr>progenitor := False, motherId := Some (personId new)\<rparr>)
                \<and> (\<forall>j. j \<noteq> personId new \<and> j \<noteq> a_currentProgenitorId dto
                       \<longrightarrow> findOneBy s' j = findOneBy s j)"
proof -
  obtain cur where
    c: "findProgenitor s = Some cur" "personId cur = a_currentProgenitorId dto"
    and n: "new = (ancestorOf dto)\<lparr>personId := nextId s\<rparr>"
    and s': "s' = updateById (a_currentProgenitorId dto)
                      (demote (a_relationship dto) (nextId s)) (snd (saveNew (ancestorOf dto) s))"
    using promoteAncestor_cases [OF assms(2)] by auto
  have cur: "cur \<in> set (rows s)" "progenitor cur"
    using c(1) by (simp_all add: findProgenitor_in_rows)
  have old: "findOneBy s (a_currentProgenitorId dto) = Some cur"
    using findOneBy_row [OF assms(1) cur(1)] c(2) by simp
  have lt: "a_currentProgenitorId dto \<noteq> nextId s"
    using findOneBy_wf [OF assms(1) old] by simp
  have newid: "personId new = nextId s"
    using n by simp
  have look: "findOneBy s' j
               = map_option (\<lambda>r. if personId r = a_currentProgenitorId dto
                                  then demote (a_relationship dto) (nextId s) r else r)
                   (if j = nextId s then Some new else findOneBy s j)" for j
    unfolding s' n by (simp add: findOneBy_updateById findOneBy_saveNew [OF assms(1)])
  have 1: "findOneBy s (personId new) = None"
    using findOneBy_fresh [OF assms(1)] newid by simp
  have 2: "findOneBy s' (personId new) = Some new"
    unfolding look newid using lt newid by simp
  have 3: "progenitor new"
    unfolding n by (simp add: ancestorOf_def)
  have 4: "findOneBy s' (a_currentProgenitorId dto)
                    = Some (if a_relationship dto = Father
                            then cur\<lparr>progenitor := False, fatherId := Some (personId new)\<rparr>
                            else cur\<lparr>progenitor := False, motherId := Some (personId new)\<rparr>)"
    unfolding look newid using lt old c(2) by (simp add: demote_def)
  have 5: "findOneBy s' j = findOneBy s j"
    if j: "j \<noteq> personId new \<and> j \<noteq> a_currentProgenitorId dto" for j
  proof (cases "findOneBy s j")
    case None
    then show ?thesis unfolding look using j newid by simp
  next
    case (Some q)
    then have "personId q = j" by (simp add: findOneBy_in_rows)
    then show ?thesis unfolding look using j newid Some by simp
  qed
  show ?thesis
    using old cur(2) 1 2 3 4 5 by (intro exI [of _ cur] conjI allI impI)
qed

text \<open>
  C3. On a well-formed table, whatever makes \<open>promoteAncestor\<close> fail, the table it leaves
  is the one it was given, and a fault at the insert, at the update or at the commit does
  make it fail. When it succeeds, the new ancestor is a row of the new table, under an id
  the old table did not hold, with \<open>progenitor = True\<close>; the former progenitor has
  \<open>progenitor = False\<close> and the new ancestor's id as its father id, or mother id, by
  the requested relationship, its other fields as before; every other row is as before.
  Without a fault it succeeds as soon as the three checks before the transaction pass.
\<close>

theorem promoteAncestor_atomic:
  assumes "wf_store s"
  shows "(\<forall>e s'. promoteAncestor flt dto s = (Inl e, s') \<longrightarrow> s' = s)
       \<and> (flt \<noteq> NoFault \<longrightarrow> (\<exists>e. promoteAncestor flt dto s = (Inl e, s)))
       \<and> (\<forall>new s'. promoteAncestor flt dto s = (Inr new, s') \<longrightarrow>
            (\<exists>old. findOneBy s (a_currentProgenitorId dto) = Some old \<and> progenitor old
                \<and> findOneBy s (personId new) = None
                \<and> findOneBy s' (personId new) = Some new \<and> progenitor new
                \<and> findOneBy s' (a_currentProgenitorId dto)
                    = Some (if a_relationship dto = Father
                            then old\<lparr>progenitor := False, fatherId := Some (personId new)\<rparr>
                            else old\<lparr>progenitor := False, motherId := Some (personId new)\<rparr>)
                \<and> (\<forall>j. j \<noteq> personId new \<and> j \<noteq> a_currentProgenitorId dto
                       \<longrightarrow> findOneBy s' j = findOneBy s j)))
       \<and> (flt = NoFault
            \<and> (\<exists>cur. findProgenitor s = Some cur \<and> personId cur = a_currentProgenitorId dto)
            \<and> a_gender dto = expectedGender (a_relationship dto)
            \<longrightarrow> (\<exists>new s'. promoteAncestor flt dto s = (Inr new, s')))"
proof -
  have a: "\<forall>e s'. promoteAncestor flt dto s = (Inl e, s') \<longrightarrow> s' = s"
    using promoteAncestor_failure by blast
  have b: "flt \<noteq> NoFault \<longrightarrow> (\<exists>e. promoteAncestor flt dto s = (Inl e, s))"
    using promoteAncestor_fault by blast
  have c: "\<forall>new s'. promoteAncestor flt dto s = (Inr new, s') \<longrightarrow>
            (\<exists>old. findOneBy s (a_currentProgenitorId dto) = Some old \<and> progenitor old
                \<and> findOneBy s (personId new) = None
                \<and> findOneBy s' (personId new) = Some new \<and> progenitor new
                \<and> findOneBy s' (a_currentProgenitorId dto)
                    = Some (if a_relationship dto = Father
                            then old\<lparr>progenitor := False, fatherId := Some (personId new)\<rparr>
                            else old\<lparr>progenitor := False, motherId := Some (personId new)\<rparr>)
                \<and> (\<forall>j. j \<noteq> personId new \<and> j \<noteq> a_currentProgenitorId dto
                       \<longrightarrow> findOneBy s' j = findOneBy s j))"
    by (intro allI impI) (rule promoteAncestor_success [OF assms])
  have d: "flt = NoFault
            \<and> (\<exists>cur. findProgenitor s = Some cur \<and> personId cur = a_currentProgenitorId dto)
            \<and> a_gender dto = expectedGender (a_relationship dto)
            \<longrightarrow> (\<exists>new s'. promoteAncestor flt dto s = (Inr new, s'))"
    using promoteAncestor_succeeds by blast
  from a b c d show ?thesis by (intro conjI)
qed

theorem promoteAncestor_atomic_witness:
  "wf_store fatherAndSon
   \<and> promoteAncestor FailInsert grandfather fatherAndSon = (Inl StoreFailure, fatherAndSon)
   \<and> promoteAncestor FailCommit grandfather fatherAndSon = (Inl StoreFailure, fatherAndSon)
   \<and> (\<exists>new s'. promoteAncestor NoFault grandfather fatherAndSon = (Inr new, s')
          \<and> personId new = 3 \<and> progenitor new
          \<and> findOneBy s' 3 = Some new
          \<and> findOneBy s' 1 = Some ((person 1 Male)\<lparr>fatherId := Some 3\<rparr>)
          \<and> findOneBy s' 2 = Some ((person 2 Male)\<lparr>fatherId := Some 1\<rparr>))"
proof -
  have w: "wf_store fatherAndSon"
    by (simp add: wf_store_def fatherAndSon_def person_def)
  let ?new = "(ancestorOf grandfather)\<lparr>personId := 3\<rparr>"
  let ?s' = "\<lparr>rows = [(person 1 Male)\<lparr>fatherId := Some 3\<rparr>,
                        (person 2 Male)\<lparr>fatherId := Some 1\<rparr>, ?new], nextId = 4\<rparr>"
  have p: "promoteAncestor NoFault grandfather fatherAndSon = (Inr ?new, ?s')"
    by (simp add: promoteAncestor_def promotionBody_def startTransaction_def
                  commitTransaction_def saveNew_def updateById_def findProgenitor_def
                  fatherAndSon_def person_def grandfather_def expectedGender_def demote_def
                  ancestorOf_def Let_def)
  have i: "promoteAncestor FailInsert grandfather fatherAndSon = (Inl StoreFailure, fatherAndSon)"
    by (simp add: promoteAncestor_def promotionBody_def startTransaction_def
                  rollbackTransaction_def findProgenitor_def fatherAndSon_def person_def
                  grandfather_def expectedGender_def)
  have c: "promoteAncestor FailCommit grandfather fatherAndSon = (Inl StoreFailure, fatherAndSon)"
    by (simp add: promoteAncestor_def promotionBody_def startTransaction_def
                  rollbackTransaction_def saveNew_def findProgenitor_def fatherAndSon_def
                  person_def grandfather_def expectedGender_def Let_def)
  have o: "findOneBy fatherAndSon 1 = Some ((person 1 Male)\<lparr>progenitor := True\<rparr>)"
          "findOneBy fatherAndSon 2 = Some ((person 2 Male)\<lparr>fatherId := Some 1\<rparr>)"
    by (simp_all add: findOneBy_def fatherAndSon_def person_def)
  have g: "a_currentProgenitorId grandfather = 1" "a_relationship grandfather = Father"
          "personId ?new = 3" "progenitor ?new"
    by (simp_all add: grandfather_def ancestorOf_def)
  note t = promoteAncestor_atomic [OF w, of NoFault grandfather]
  from t have "findOneBy ?s' 3 = Some ?new
               \<and> findOneBy ?s' 1 = Some ((person 1 Male)\<lparr>fatherId := Some 3\<rparr>)
               \<and> findOneBy ?s' 2 = findOneBy fatherAndSon 2"
    using p o g by (auto simp: person_def)
  then show ?thesis
    using w i c p o g by simp
qed

subsection \<open>Self-parent exclusion\<close>

lemma updatePerson_failure_unchanged:
  "updatePerson eng i p s = (Inl e, s') \<Longrightarrow> s' = s"
  by (auto simp: updatePerson_def Let_def split: sum.splits if_splits)

lemma updatePerson_self_fails:
  assumes "u_fatherId p = Value x \<or> u_motherId p = Value x"
  shows "\<exists>e. updatePerson eng x p s = (Inl e, s)"
proof -
  have "\<exists>e. fst (updatePerson eng x p s) = Inl e"
    using assms by (auto simp: updatePerson_def Let_def split: sum.splits)
  then obtain e where "fst (updatePerson eng x p s) = Inl e" ..
  then have "updatePerson eng x p s = (Inl e, snd (updatePerson eng x p s))"
    by (simp add: prod_eq_iff)
  then show ?thesis
    using updatePerson_failure_unchanged by metis
qed

lemma self_father_male_undated:
  assumes "findOneBy s x = Some X" "gender X = Male" "\<not> truthyStr (birthDate X)"
  shows "updatePerson eng x (blankPatch\<lparr>u_fatherId := Value x\<rparr>) s = (Inl SelfParent, s)"
proof -
  have d: "validateParentDates eng s (birthDate X) f m = Inr ()" for f m
    using assms(3) by (cases "birthDate X") (auto simp: validateParentDates_def)
  show ?thesis
    using assms(1,2) d
    by (simp add: updatePerson_def findPersonById_def blankPatch_def validateParents_def)
qed

lemma self_mother_female_undated:
  assumes "findOneBy s x = Some X" "gender X = Female" "\<not> truthyStr (birthDate X)"
  shows "updatePerson eng x (blankPatch\<lparr>u_motherId := Value x\<rparr>) s = (Inl SelfParent, s)"
proof -
  have d: "validateParentDates eng s (birthDate X) f m = Inr ()" for f m
    using assms(3) by (cases "birthDate X") (auto simp: validateParentDates_def)
  show ?thesis
    using assms(1,2) d
    by (simp add: updatePerson_def findPersonById_def blankPatch_def validateParents_def)
qed

lemma self_father_female:
  assumes "x \<noteq> 0" "findOneBy s x = Some X" "gender X = Female"
  shows "updatePerson eng x (blankPatch\<lparr>u_fatherId := Value x\<rparr>) s = (Inl (InvalidRole Father), s)"
  using assms
  by (simp add: updatePerson_relationship_error [where X = X] blankPatch_def
                validateParents_father_wrong)

lemma self_mother_male:
  assumes "x \<noteq> 0" "findOneBy s x = Some X" "gender X = Male"
  shows "updatePerson eng x (blankPatch\<lparr>u_motherId := Value x\<rparr>) s = (Inl (InvalidRole Mother), s)"
  using assms
  by (simp add: updatePerson_relationship_error [where X = X] blankPatch_def
                validateParents_def)

lemma self_father_male_dated:
  assumes "x \<noteq> 0" "findOneBy s x = Some X" "gender X = Male"
      and "birthDate X = Some b" "b \<noteq> []" "extractYear eng b = Fin y"
  shows "updatePerson eng x (blankPatch\<lparr>u_fatherId := Value x\<rparr>) s = (Inl (ImplausibleAge Father), s)"
proof -
  have "fatherChecks eng s b (Some x) = Inl (ImplausibleAge Father)"
    using assms by (simp add: fatherChecks_def parentBirthCheck_years)
  then have "validateParentDates eng s (Some b) (Some x) m = Inl (ImplausibleAge Father)" for m
    using assms(5) by (simp add: validateParentDates_def)
  then show ?thesis
    using assms(1-4)
    by (simp add: updatePerson_temporal_error [where X = X] blankPatch_def validateParents_def)
qed

text \<open>
  C4, as the claim words it, fails. Person 2 of the table is female: making her her own
  father fails with \<open>InvalidRole\<close>. Person 1 is male and born in 1900: making him his own
  father fails with \<open>ImplausibleAge\<close>, a father being born in the year of his child.
  The relationship and temporal validators run before the self-parent check.
\<close>

theorem self_parent_counterexample:
  "findOneBy parents1900 2 = Some ((person 2 Female)\<lparr>birthDate := Some ''1902''\<rparr>)
   \<and> updatePerson utcEngine 2 (blankPatch\<lparr>u_fatherId := Value 2\<rparr>) parents1900
       = (Inl (InvalidRole Father), parents1900)
   \<and> findOneBy parents1900 1
       = Some ((person 1 Male)\<lparr>progenitor := True, birthDate := Some ''1900''\<rparr>)
   \<and> updatePerson utcEngine 1 (blankPatch\<lparr>u_fatherId := Value 1\<rparr>) parents1900
       = (Inl (ImplausibleAge Father), parents1900)"
  by (simp add: updatePerson_def findPersonById_def validateParents_def validateParentDates_def
                fatherChecks_def parentBirthCheck_def findOneBy_def parents1900_def person_def
                blankPatch_def extractYear_examples)

text \<open>
  C4, amended. An update of person \<open>x\<close> whose payload names \<open>x\<close> as father or as mother
  always fails and leaves the table unchanged. For an existing person \<open>X\<close> and the payload
  \<^verbatim>\<open>{fatherId: X.id}\<close> the error is \<open>SelfParent\<close> when \<open>X\<close> is male and has no birth
  date, \<open>InvalidRole\<close> when \<open>X\<close> is female, and \<open>ImplausibleAge\<close> when \<open>X\<close> is male
  and has a birth date with a year; for \<^verbatim>\<open>{motherId: X.id}\<close> it is \<open>SelfParent\<close> when
  \<open>X\<close> is female and has no birth date and \<open>InvalidRole\<close> when \<open>X\<close> is male. Every
  mutation (create, update, link children, remove, promote) takes a well-formed table where
  nobody is their own parent to a table of the same kind.
\<close>

theorem self_parent_exclusion:
  assumes "wf_store s" "noSelfParent s"
  shows "(u_fatherId patch = Value x \<or> u_motherId patch = Value x
            \<longrightarrow> (\<exists>e. updatePerson eng x patch s = (Inl e, s)))
       \<and> (findOneBy s x = Some X \<and> gender X = Male \<and> \<not> truthyStr (birthDate X)
            \<longrightarrow> updatePerson eng x (blankPatch\<lparr>u_fatherId := Value x\<rparr>) s = (Inl SelfParent, s))
       \<and> (findOneBy s x = Some X \<and> gender X = Female \<and> \<not> truthyStr (birthDate X)
            \<longrightarrow> updatePerson eng x (blankPatch\<lparr>u_motherId := Value x\<rparr>) s = (Inl SelfParent, s))
       \<and> (findOneBy s x = Some X \<and> gender X = Female
            \<longrightarrow> updatePerson eng x (blankPatch\<lparr>u_fatherId := Value x\<rparr>) s
                  = (Inl (InvalidRole Father), s))
       \<and> (findOneBy s x = Some X \<and> gender X = Male
            \<longrightarrow> updatePerson eng x (blankPatch\<lparr>u_motherId := Value x\<rparr>) s
                  = (Inl (InvalidRole Mother), s))
       \<and> (findOneBy s x = Some X \<and> gender X = Male
            \<and> birthDate X = Some b \<and> b \<noteq> [] \<and> extractYear eng b = Fin y
            \<longrightarrow> updatePerson eng x (blankPatch\<lparr>u_fatherId := Value x\<rparr>) s
                  = (Inl (ImplausibleAge Father), s))
       \<and> wf_store (commit eng m s) \<and> noSelfParent (commit eng m s)
       \<and> wf_store (fold (commit eng) ms s) \<and> noSelfParent (fold (commit eng) ms s)"
proof -
  have z: "x \<noteq> 0" if "findOneBy s x = Some X"
    using findOneBy_wf [OF assms(1) that] by simp
  have 1: "u_fatherId patch = Value x \<or> u_motherId patch = Value x
            \<longrightarrow> (\<exists>e. updatePerson eng x patch s = (Inl e, s))"
    by (simp add: updatePerson_self_fails)
  have 2: "findOneBy s x = Some X \<and> gender X = Male \<and> \<not> truthyStr (birthDate X)
            \<longrightarrow> updatePerson eng x (blankPatch\<lparr>u_fatherId := Value x\<rparr>) s = (Inl SelfParent, s)"
    by (simp add: self_father_male_undated)
  have 3: "findOneBy s x = Some X \<and> gender X = Female \<and> \<not> truthyStr (birthDate X)
            \<longrightarrow> updatePerson eng x (blankPatch\<lparr>u_motherId := Value x\<rparr>) s = (Inl SelfParent, s)"
    by (simp add: self_mother_female_undated)
  have 4: "findOneBy s x = Some X \<and> gender X = Female
            \<longrightarrow> updatePerson eng x (blankPatch\<lparr>u_fatherId := Value x\<rparr>) s
                  = (Inl (InvalidRole Father), s)"
    using z by (simp add: self_father_female)
  have 5: "findOneBy s x = Some X \<and> gender X = Male
            \<longrightarrow> updatePerson eng x (blankPatch\<lparr>u_motherId := Value x\<rparr>) s
                  = (Inl (InvalidRole Mother), s)"
    using z by (simp add: self_mother_male)
  have 6: "findOneBy s x = Some X \<and> gender X = Male
            \<and> birthDate X = Some b \<and> b \<noteq> [] \<and> extractYear eng b = Fin y
            \<longrightarrow> updatePerson eng x (blankPatch\<lparr>u_fatherId := Value x\<rparr>) s
                  = (Inl (ImplausibleAge Father), s)"
    using z by (simp add: self_father_male_dated)
  have 7: "wf_store (commit eng m s)" "noSelfParent (commit eng m s)"
    using assms by (simp_all add: wf_commit nsp_commit)
  have 8: "wf_store (fold (commit eng) ms s)" "noSelfParent (fold (commit eng) ms s)"
    using assms invariants_fold by simp_all
  from 1 2 3 4 5 6 7 8 show ?thesis by (intro conjI)
qed

theorem self_parent_exclusion_witness:
  "wf_store fatherAndSon \<and> noSelfParent fatherAndSon
   \<and> updatePerson utcEngine 1 (blankPatch\<lparr>u_fatherId := Value 1\<rparr>) fatherAndSon
       = (Inl SelfParent, fatherAndSon)
   \<and> updatePerson utcEngine 1 (blankPatch\<lparr>u_motherId := Value 1\<rparr>) fatherAndSon
       = (Inl (InvalidRole Mother), fatherAndSon)
   \<and> noSelfParent (commit utcEngine (Update 2 (blankPatch\<lparr>u_fatherId := Null\<rparr>)) fatherAndSon)"
proof -
  have w: "wf_store fatherAndSon" and n: "noSelfParent fatherAndSon"
    by (simp_all add: wf_store_def noSelfParent_def fatherAndSon_def person_def)
  let ?X = "(person 1 Male)\<lparr>progenitor := True\<rparr>"
  have f: "findOneBy fatherAndSon 1 = Some ?X"
    by (simp add: findOneBy_def fatherAndSon_def person_def)
  have g: "gender ?X = Male" "\<not> truthyStr (birthDate ?X)"
    by (simp_all add: person_def)
  note t = self_parent_exclusion [OF w n, where x = 1 and X = ?X
      and m = "Update 2 (blankPatch\<lparr>u_fatherId := Null\<rparr>)"]
  show ?thesis
    using t w n f g by simp
qed

subsection \<open>Acyclic ancestry\<close>

lemma parentEdges_iff:
  "(a, b) \<in> parentEdges s \<longleftrightarrow>
     (\<exists>p \<in> set (rows s). personId p = a \<and> (fatherId p = Some b \<or> motherId p = Some b))"
proof
  assume "(a, b) \<in> parentEdges s"
  then obtain p where "p \<in> set (rows s)"
      "(a, b) \<in> set ((case fatherId p of None \<Rightarrow> [] | Some f \<Rightarrow> [(personId p, f)])
                      @ (case motherId p of None \<Rightarrow> [] | Some m \<Rightarrow> [(personId p, m)]))"
    by (auto simp: parentEdges_def)
  then show "\<exists>p \<in> set (rows s). personId p = a \<and> (fatherId p = Some b \<or> motherId p = Some b)"
    by (intro bexI [of _ p]) (auto split: option.splits)
next
  assume "\<exists>p \<in> set (rows s). personId p = a \<and> (fatherId p = Some b \<or> motherId p = Some b)"
  then obtain p where "p \<in> set (rows s)" "personId p = a"
      "fatherId p = Some b \<or> motherId p = Some b"
    by blast
  then show "(a, b) \<in> parentEdges s"
    unfolding parentEdges_def by (auto intro!: bexI [of _ p])
qed

lemma findOneBy_Some_iff:
  assumes "wf_store s"
  shows "findOneBy s i = Some p \<longleftrightarrow> p \<in> set (rows s) \<and> personId p = i"
  using findOneBy_row [OF assms] findOneBy_in_rows by blast

lemma findOneBy_None_iff: "findOneBy s i = None \<longleftrightarrow> (\<forall>p \<in> set (rows s). personId p \<noteq> i)"
  by (auto simp: findOneBy_def find_None_iff)

lemma set_pushId: "set (pushId x visited stack) \<supseteq> set stack"
  by (auto simp: pushId_def split: option.splits)

lemma pushId_covers:
  "x = Some w \<Longrightarrow> w \<in> set visited \<or> w \<in> set (pushId x visited stack) \<or> w = 0"
  by (auto simp: pushId_def)

text \<open>
  When the loop returns \<open>False\<close>, the nodes it visited, with those it started from, form a
  set closed under the parent edges in which nobody has the sought ancestor as a parent.
\<close>

lemma cycleLoop_closed:
  "wf_store s \<Longrightarrow> cycleLoop s anc visited stack = False
     \<Longrightarrow> explored s anc (set visited) (set stack)
     \<Longrightarrow> \<exists>V. set visited \<subseteq> V \<and> set stack - {0} \<subseteq> V \<and> explored s anc V {}"
proof (induction s anc visited stack rule: cycleLoop.induct)
  case (1 s anc visited)
  then show ?case by (auto simp: explored_def)
next
  case (2 s anc visited c stack)
  note w = "2.prems"(1)
  show ?case
  proof (cases "c = 0")
    case True
    with "2.prems"(2) have "cycleLoop s anc visited stack = False" by simp
    moreover have "explored s anc (set visited) (set stack)"
      using "2.prems"(3) True by (auto simp: explored_def)
    ultimately obtain V where "set visited \<subseteq> V \<and> set stack - {0} \<subseteq> V \<and> explored s anc V {}"
      using "2.IH"(1) [OF True] w by blast
    then show ?thesis using True by auto
  next
    case False
    show ?thesis
    proof (cases "c \<in> set visited")
      case True
      with "2.prems"(2) False have "cycleLoop s anc visited stack = False" by simp
      moreover have "explored s anc (set visited) (set stack)"
        using "2.prems"(3) True by (auto simp: explored_def)
      ultimately obtain V where "set visited \<subseteq> V \<and> set stack - {0} \<subseteq> V \<and> explored s anc V {}"
        using "2.IH"(2) [OF False True] w by blast
      then show ?thesis using True by auto
    next
      case nv: False
      show ?thesis
      proof (cases "findOneBy s c")
        case None
        with "2.prems"(2) False nv have r: "cycleLoop s anc (c # visited) stack = False" by simp
        have "\<forall>w. (c, w) \<notin> parentEdges s"
          using None by (auto simp: parentEdges_iff findOneBy_None_iff)
        then have "explored s anc (set (c # visited)) (set stack)"
          using "2.prems"(3) by (auto simp: explored_def)
        then obtain V where "set (c # visited) \<subseteq> V \<and> set stack - {0} \<subseteq> V \<and> explored s anc V {}"
          using "2.IH"(3) [OF False nv None] r w by blast
        then show ?thesis by auto
      next
        case (Some current)
        have nm: "\<not> (fatherId current = Some anc \<or> motherId current = Some anc)"
          using "2.prems"(2) False nv Some by (auto split: if_splits)
        let ?st = "pushId (motherId current) (c # visited)
                     (pushId (fatherId current) (c # visited) stack)"
        have r: "cycleLoop s anc (c # visited) ?st = False"
          using "2.prems"(2) False nv Some nm by simp
        have edges: "(c, x) \<in> parentEdges s \<longleftrightarrow> fatherId current = Some x \<or> motherId current = Some x" for x
          using Some findOneBy_Some_iff [OF w] findOneBy_row [OF w]
          by (auto simp: parentEdges_iff) (metis option.inject)+
        have sub: "set stack \<subseteq> set ?st"
          using set_pushId by (meson order_trans)
        have cov: "(c, x) \<in> parentEdges s \<Longrightarrow> x \<in> set (c # visited) \<or> x \<in> set ?st \<or> x = 0" for x
          unfolding edges
          using pushId_covers [of "fatherId current" x "c # visited" stack]
                pushId_covers [of "motherId current" x "c # visited" "pushId (fatherId current) (c # visited) stack"]
                set_pushId [of "pushId (fatherId current) (c # visited) stack" "motherId current" "c # visited"]
          by auto
        have "explored s anc (set (c # visited)) (set ?st)"
          unfolding explored_def
        proof (intro ballI conjI allI impI)
          fix v assume "v \<in> set (c # visited)"
          then show "(v, anc) \<notin> parentEdges s"
            using "2.prems"(3) nm edges by (auto simp: explored_def)
        next
          fix v x assume v: "v \<in> set (c # visited)" and e: "(v, x) \<in> parentEdges s"
          show "x \<in> set (c # visited) \<or> x \<in> set ?st \<or> x = 0"
          proof (cases "v = c")
            case True
            then show ?thesis using cov e by simp
          next
            case False
            then have "v \<in> set visited" using v by simp
            then have "x \<in> set visited \<or> x \<in> set (c # stack) \<or> x = 0"
              using "2.prems"(3) e by (auto simp: explored_def)
            then show ?thesis using sub by auto
          qed
        qed
        then obtain V where "set (c # visited) \<subseteq> V \<and> set ?st - {0} \<subseteq> V \<and> explored s anc V {}"
          using "2.IH"(4) [OF False nv Some nm] r w by blast
        then show ?thesis using sub by auto
      qed
    qed
  qed
qed


lemma no_edge_from_absent:
  "findOneBy s a = None \<Longrightarrow> (a, b) \<notin> parentEdges s"
  by (auto simp: parentEdges_iff findOneBy_None_iff)

lemma no_path_from_absent:
  assumes "findOneBy s a = None"
  shows "(a, b) \<in> (parentEdges s)\<^sup>* \<longleftrightarrow> a = b"
  using no_edge_from_absent [OF assms] by (meson converse_rtranclE rtrancl.rtrancl_refl)

lemma findOneBy_zero: "wf_store s \<Longrightarrow> findOneBy s 0 = None"
  using findOneBy_wf [of s 0] by (cases "findOneBy s 0") auto

lemma explored_closed:
  assumes "wf_store s" "explored s anc V {}" "(x, y) \<in> (parentEdges s)\<^sup>*" "x \<in> V \<or> x = 0"
  shows "y \<in> V \<or> y = 0"
  using assms(3,4)
proof (induction rule: rtrancl_induct)
  case base
  then show ?case .
next
  case (step y z)
  then have "y \<in> V \<or> y = 0" by simp
  then show ?case
  proof
    assume "y \<in> V"
    then show ?thesis using assms(2) step.hyps(2) by (auto simp: explored_def)
  next
    assume "y = 0"
    then show ?thesis
      using step.hyps(2) no_edge_from_absent [OF findOneBy_zero [OF assms(1)]] by simp
  qed
qed

text \<open>The detector misses no path: when it answers \<open>False\<close>, the potential ancestor is
  not reachable from the start along parent edges.\<close>

lemma detector_complete:
  assumes "wf_store s" "\<not> wouldCreateAncestryCycle s anc start"
  shows "(start, anc) \<notin> (parentEdges s)\<^sup>+"
proof
  assume p: "(start, anc) \<in> (parentEdges s)\<^sup>+"
  have "explored s anc (set []) (set [start])"
    by (simp add: explored_def)
  then obtain V where V: "set [start] - {0} \<subseteq> V" "explored s anc V {}"
    using cycleLoop_closed [OF assms(1), of anc "[]" "[start]"] assms(2)
    by (auto simp: wouldCreateAncestryCycle_def)
  from p obtain u where u: "(start, u) \<in> (parentEdges s)\<^sup>*" "(u, anc) \<in> parentEdges s"
    by (meson tranclD2)
  have "start \<in> V \<or> start = 0" using V(1) by auto
  then have "u \<in> V \<or> u = 0"
    using explored_closed [OF assms(1) V(2) u(1)] by simp
  then show False
  proof
    assume "u \<in> V"
    then show False using V(2) u(2) by (auto simp: explored_def)
  next
    assume "u = 0"
    then show False
      using u(2) no_edge_from_absent [OF findOneBy_zero [OF assms(1)]] by simp
  qed
qed


text \<open>Adding edges that leave one node, or that enter one node, to an acyclic relation.\<close>

lemma path_with_out_edges:
  "(a, b) \<in> (E \<union> {x} \<times> Y)\<^sup>* \<Longrightarrow> (a, b) \<in> E\<^sup>* \<or> (a, x) \<in> E\<^sup>*"
proof (induction rule: rtrancl_induct)
  case base
  then show ?case by simp
next
  case (step y z)
  then show ?case by (auto intro: rtrancl.rtrancl_into_rtrancl)
qed

lemma path_with_in_edges:
  "(a, b) \<in> (E \<union> C \<times> {p})\<^sup>* \<Longrightarrow> (a, b) \<in> E\<^sup>* \<or> (p, b) \<in> E\<^sup>*"
proof (induction rule: rtrancl_induct)
  case base
  then show ?case by simp
next
  case (step y z)
  then show ?case by (auto intro: rtrancl.rtrancl_into_rtrancl)
qed

lemma acyclic_out_edges:
  "acyclic E \<Longrightarrow> \<forall>y \<in> set ys. (y, x) \<notin> E\<^sup>* \<Longrightarrow> acyclic (E \<union> {x} \<times> set ys)"
proof (induction ys)
  case Nil
  then show ?case by simp
next
  case (Cons y ys)
  have "(y, x) \<notin> (E \<union> {x} \<times> set ys)\<^sup>*"
    using path_with_out_edges [of y x E x "set ys"] Cons.prems(2) by auto
  moreover have "acyclic (E \<union> {x} \<times> set ys)"
    using Cons by simp
  moreover have "E \<union> {x} \<times> set (y # ys) = insert (x, y) (E \<union> {x} \<times> set ys)"
    by auto
  ultimately show ?case by simp
qed

lemma acyclic_in_edges:
  "acyclic E \<Longrightarrow> \<forall>c \<in> set cs. (p, c) \<notin> E\<^sup>* \<Longrightarrow> acyclic (E \<union> set cs \<times> {p})"
proof (induction cs)
  case Nil
  then show ?case by simp
next
  case (Cons c cs)
  have "(p, c) \<notin> (E \<union> set cs \<times> {p})\<^sup>*"
    using path_with_in_edges [of p c E "set cs" p] Cons.prems(2) by auto
  moreover have "acyclic (E \<union> set cs \<times> {p})"
    using Cons by simp
  moreover have "E \<union> set (c # cs) \<times> {p} = insert (c, p) (E \<union> set cs \<times> {p})"
    by auto
  ultimately show ?case by simp
qed


lemma parentEdges_saveExisting:
  "parentEdges (saveExisting p' s)
     \<subseteq> parentEdges s \<union> {personId p'} \<times> (set_option (fatherId p') \<union> set_option (motherId p'))"
  by (auto simp: parentEdges_iff saveExisting_def split: if_splits)

lemma parentEdges_updateById_setParent:
  "parentEdges (updateById c (setParent g n) s) \<subseteq> parentEdges s \<union> {(c, n)}"
  by (auto simp: parentEdges_iff updateById_def setParent_def split: if_splits)

lemma parentEdges_link:
  "parentEdges (linkChildrenToParentInternal parent children s)
     \<subseteq> parentEdges s \<union> (personId ` set children) \<times> {personId parent}"
  unfolding linkChildrenToParentInternal_def
proof (induction children arbitrary: s)
  case Nil
  then show ?case by simp
next
  case (Cons c cs)
  have "parentEdges (fold (\<lambda>child. updateById (personId child)
                        (setParent (gender parent) (personId parent))) cs
                       (updateById (personId c) (setParent (gender parent) (personId parent)) s))
          \<subseteq> parentEdges (updateById (personId c) (setParent (gender parent) (personId parent)) s)
              \<union> (personId ` set cs) \<times> {personId parent}"
    by (rule Cons.IH)
  then show ?case
    using parentEdges_updateById_setParent [of "personId c" "gender parent" "personId parent" s]
    by auto
qed

lemma parentEdges_removeRow: "parentEdges (removeRow p s) \<subseteq> parentEdges s"
  by (auto simp: parentEdges_iff removeRow_def)

lemma parentEdges_promote:
  "parentEdges (updateById c (demote r n) (snd (saveNew (ancestorOf dto) s)))
     \<subseteq> insert (c, n) (parentEdges s)"
  by (auto simp: parentEdges_iff updateById_def saveNew_def Let_def demote_def ancestorOf_def
           split: if_splits)

lemma not_rtrancl:
  "a \<noteq> b \<Longrightarrow> (a, b) \<notin> E\<^sup>+ \<Longrightarrow> (a, b) \<notin> E\<^sup>*"
  by (meson rtranclD)

lemma validateParents_ok_refs:
  assumes "wf_store s" "validateParents s f m = Inr ()"
  shows "set_option f \<union> set_option m \<subseteq> {0 ..< nextId s}"
proof -
  have "x = 0 \<or> findOneBy s x \<noteq> None" if "f = Some x \<or> m = Some x" for x
    using that assms(2)
    by (cases f; cases m)
       (auto simp: validateParents_def andThen_Inr split: if_splits option.splits)
  then have "0 \<le> x \<and> x < nextId s" if "f = Some x \<or> m = Some x" for x
    using that findOneBy_wf [OF assms(1), of x] assms(1) by (fastforce simp: wf_store_def)
  then show ?thesis
    by (auto elim!: option.set_cases)
qed

lemma linkChildrenToParent_failure_unchanged:
  "linkChildrenToParent eng i cs r s = (Inl e, s') \<Longrightarrow> s' = s"
  by (auto simp: linkChildrenToParent_def split: option.splits sum.splits if_splits)

lemma acyclic_linkChildrenToParent:
  assumes "wf_store s" "acyclic (parentEdges s)"
  shows "acyclic (parentEdges (snd (linkChildrenToParent eng i cs r s)))"
proof (cases "linkChildrenToParent eng i cs r s")
  case (Pair res s')
  show ?thesis
  proof (cases res)
    case (Inl e)
    with Pair have "s' = s" by (simp add: linkChildrenToParent_failure_unchanged)
    with Pair assms show ?thesis by simp
  next
    case (Inr k)
    then obtain parent children where
      p: "findOneBy s i = Some parent" and n: "i \<notin> set cs"
      and d: "\<not> list_ex (\<lambda>childId. wouldCreateAncestryCycle s childId i) cs"
      and c: "validateChildren eng s (Some cs) (gender parent) (birthDate parent) (deathDate parent)
                = Inr children"
      and s': "s' = linkChildrenToParentInternal parent children s"
      using Pair by (auto simp: linkChildrenToParent_def split: option.splits sum.splits if_splits)
    have P: "personId parent = i"
      using p by (simp add: findOneBy_in_rows)
    have "\<forall>c \<in> set cs. (i, c) \<notin> (parentEdges s)\<^sup>*"
    proof
      fix c assume m: "c \<in> set cs"
      then have "\<not> wouldCreateAncestryCycle s c i"
        using d by (auto simp: list_ex_iff)
      then have "(i, c) \<notin> (parentEdges s)\<^sup>+"
        by (rule detector_complete [OF assms(1)])
      moreover have "i \<noteq> c"
        using n m by auto
      ultimately show "(i, c) \<notin> (parentEdges s)\<^sup>*"
        by (rule not_rtrancl [rotated])
    qed
    then have a: "acyclic (parentEdges s \<union> set cs \<times> {i})"
      using assms(2) by (rule acyclic_in_edges [rotated])
    have "personId ` set children \<subseteq> set cs"
      using validateChildren_rows [OF c] by (auto simp: list_all_iff)
    then have "parentEdges s' \<subseteq> parentEdges s \<union> set cs \<times> {i}"
      unfolding s' using parentEdges_link [of parent children s] P by auto
    with a have "acyclic (parentEdges s')" by (rule acyclic_subset)
    with Pair show ?thesis by simp
  qed
qed

lemma acyclic_removePerson:
  assumes "acyclic (parentEdges s)"
  shows "acyclic (parentEdges (snd (removePerson i s)))"
proof -
  have "parentEdges (snd (removePerson i s)) \<subseteq> parentEdges s"
    using parentEdges_removeRow by (auto simp: removePerson_def split: sum.splits)
  with assms show ?thesis by (rule acyclic_subset)
qed

lemma acyclic_promoteAncestor:
  assumes "wf_store s" "acyclic (parentEdges s)"
  shows "acyclic (parentEdges (snd (promoteAncestor flt dto s)))"
proof -
  obtain r s' where p: "promoteAncestor flt dto s = (r, s')"
    by (cases "promoteAncestor flt dto s")
  show ?thesis
  proof (cases r)
    case (Inl e)
    with p assms show ?thesis using promoteAncestor_failure [of flt dto s e s'] by simp
  next
    case (Inr new)
    then obtain cur where
      c: "findProgenitor s = Some cur" "personId cur = a_currentProgenitorId dto"
      and s': "s' = updateById (a_currentProgenitorId dto)
                        (demote (a_relationship dto) (nextId s)) (snd (saveNew (ancestorOf dto) s))"
      using p promoteAncestor_cases [of flt dto s new s'] by auto
    have "a_currentProgenitorId dto < nextId s"
      using c assms(1) findProgenitor_in_rows [of s cur] by (auto simp: wf_store_def list_all_iff)
    then have "(nextId s, a_currentProgenitorId dto) \<notin> (parentEdges s)\<^sup>*"
      using no_path_from_absent [OF findOneBy_fresh [OF assms(1)]] by simp
    then have "acyclic (insert (a_currentProgenitorId dto, nextId s) (parentEdges s))"
      using assms(2) by simp
    moreover have "parentEdges s' \<subseteq> insert (a_currentProgenitorId dto, nextId s) (parentEdges s)"
      unfolding s' by (rule parentEdges_promote)
    ultimately have "acyclic (parentEdges s')" by (rule acyclic_subset)
    with p show ?thesis by simp
  qed
qed


lemma no_path_without_out_edge:
  assumes "\<And>b. (a, b) \<notin> R"
  shows "(a, b) \<in> R\<^sup>* \<longleftrightarrow> a = b"
  using assms by (meson converse_rtranclE rtrancl.rtrancl_refl)

lemma no_path_without_in_edge:
  assumes "\<And>a. (a, b) \<notin> R"
  shows "(a, b) \<in> R\<^sup>* \<longleftrightarrow> a = b"
  using assms by (meson rtranclE rtrancl.rtrancl_refl)

lemma parentEdges_saveNew:
  "parentEdges (snd (saveNew p s))
     = parentEdges s \<union> {nextId s} \<times> (set_option (fatherId p) \<union> set_option (motherId p))"
  by (auto simp: parentEdges_iff saveNew_def Let_def elim!: option.set_cases)

lemma nextId_updateById: "nextId (updateById i f s) = nextId s"
  by (simp add: updateById_def)

lemma nextId_link: "nextId (linkChildrenToParentInternal parent cs s) = nextId s"
  unfolding linkChildrenToParentInternal_def
  by (induction cs arbitrary: s) (simp_all add: nextId_updateById)

lemma create_result:
  assumes "create eng dto s = (Inr new, s')"
  shows "\<exists>cs. validateParents s (c_fatherId dto) (c_motherId dto) = Inr ()
           \<and> validateChildren eng s (c_childrenIds dto) (c_gender dto) (c_birthDate dto)
                (c_deathDate dto) = Inr cs
           \<and> personId new = nextId s
           \<and> fatherId new = c_fatherId dto \<and> motherId new = c_motherId dto
           \<and> parentEdges s' \<subseteq> parentEdges s
                \<union> {nextId s} \<times> (set_option (c_fatherId dto) \<union> set_option (c_motherId dto))
                \<union> (personId ` set cs) \<times> {nextId s}
           \<and> nextId s' = nextId s + 1"
proof -
  obtain dto' cs s1 where
      o: "validateNotOrphan s dto = Inr dto'"
      and v: "validateParents s (c_fatherId dto') (c_motherId dto') = Inr ()"
      and c: "validateChildren eng s (c_childrenIds dto') (c_gender dto') (c_birthDate dto')
                (c_deathDate dto') = Inr cs"
      and n: "saveNew (entityOf dto') s = (new, s1)"
      and s': "s' = (if length cs > 0 then linkChildrenToParentInternal new cs s1 else s1)"
    using assms by (auto simp: create_def split: sum.splits prod.splits)
  have same: "c_fatherId dto' = c_fatherId dto" "c_motherId dto' = c_motherId dto"
      "c_childrenIds dto' = c_childrenIds dto" "c_gender dto' = c_gender dto"
      "c_birthDate dto' = c_birthDate dto" "c_deathDate dto' = c_deathDate dto"
    using o by (auto simp: validateNotOrphan_cases split: if_splits)
  have new: "personId new = nextId s" "fatherId new = c_fatherId dto"
      "motherId new = c_motherId dto" "s1 = snd (saveNew (entityOf dto') s)"
    using n same by (auto simp: saveNew_def Let_def entityOf_def)
  have e1: "parentEdges s1 = parentEdges s
              \<union> {nextId s} \<times> (set_option (c_fatherId dto) \<union> set_option (c_motherId dto))"
    unfolding new(4) parentEdges_saveNew using same by (simp add: entityOf_def)
  have "parentEdges s' \<subseteq> parentEdges s1 \<union> (personId ` set cs) \<times> {nextId s}"
    unfolding s' using parentEdges_link [of new cs s1] new(1) by auto
  moreover have "nextId s' = nextId s + 1"
    unfolding s' new(4) by (simp add: nextId_link saveNew_def Let_def)
  ultimately show ?thesis
    using v c same new e1 by auto
qed

lemma refsBelow_iff: "refsBelow s \<longleftrightarrow> (\<forall>a b. (a, b) \<in> parentEdges s \<longrightarrow> b < nextId s)"
  by (fastforce simp: refsBelow_def)

lemma refsBelowD: "refsBelow s \<Longrightarrow> (a, b) \<in> parentEdges s \<Longrightarrow> b < nextId s"
  by (simp add: refsBelow_iff)

lemma refsBelow_grow:
  assumes "refsBelow s" "nextId s \<le> nextId s'"
      and "parentEdges s' \<subseteq> parentEdges s \<union> A \<times> B" "\<forall>b \<in> B. b < nextId s'"
  shows "refsBelow s'"
  unfolding refsBelow_iff
proof (intro allI impI)
  fix a b assume "(a, b) \<in> parentEdges s'"
  then have "(a, b) \<in> parentEdges s \<or> b \<in> B"
    using assms(3) by auto
  then show "b < nextId s'"
  proof
    assume "(a, b) \<in> parentEdges s"
    then have "b < nextId s" by (rule refsBelowD [OF assms(1)])
    then show ?thesis using assms(2) by simp
  next
    assume "b \<in> B"
    then show ?thesis using assms(4) by simp
  qed
qed

lemma create_failure_unchanged: "create eng dto s = (Inl e, s') \<Longrightarrow> s' = s"
  by (auto simp: create_def split: sum.splits prod.splits)

lemma validateChildren_none:
  "ids = None \<or> ids = Some [] \<Longrightarrow> validateChildren eng s ids g b d = Inr []"
  by (auto simp: validateChildren_def)

lemma set_optList: "set (optList x) = set_option x"
  by (cases x) (simp_all add: optList_def)

lemma create_edges:
  assumes "wf_store s" "create eng dto s = (Inr new, s')"
  shows "\<exists>ids :: int list.
     parentEdges s' \<subseteq> parentEdges s
        \<union> {nextId s} \<times> set (optList (c_fatherId dto) @ optList (c_motherId dto))
        \<union> set ids \<times> {nextId s}
     \<and> (\<forall>y \<in> set (optList (c_fatherId dto) @ optList (c_motherId dto)). 0 \<le> y \<and> y < nextId s)
     \<and> (\<forall>c \<in> set ids. 0 < c \<and> c < nextId s)
     \<and> (c_childrenIds dto = None \<or> c_childrenIds dto = Some [] \<longrightarrow> ids = [])
     \<and> nextId s' = nextId s + 1"
proof -
  obtain cs where
    v: "validateParents s (c_fatherId dto) (c_motherId dto) = Inr ()"
    and c: "validateChildren eng s (c_childrenIds dto) (c_gender dto) (c_birthDate dto)
              (c_deathDate dto) = Inr cs"
    and e: "parentEdges s' \<subseteq> parentEdges s
              \<union> {nextId s} \<times> (set_option (c_fatherId dto) \<union> set_option (c_motherId dto))
              \<union> (personId ` set cs) \<times> {nextId s}"
    and n: "nextId s' = nextId s + 1"
    using create_result [OF assms(2)] by blast
  have 1: "parentEdges s' \<subseteq> parentEdges s
        \<union> {nextId s} \<times> set (optList (c_fatherId dto) @ optList (c_motherId dto))
        \<union> set (map personId cs) \<times> {nextId s}"
    using e by (simp add: set_optList)
  have 2: "\<forall>y \<in> set (optList (c_fatherId dto) @ optList (c_motherId dto)). 0 \<le> y \<and> y < nextId s"
    using validateParents_ok_refs [OF assms(1) v] by (auto simp: set_optList)
  have r: "list_all (\<lambda>p. 0 < personId p \<and> personId p < nextId s) (rows s)"
    using assms(1) by (simp add: wf_store_def)
  have 3: "\<forall>c \<in> set (map personId cs). 0 < c \<and> c < nextId s"
  proof
    fix c assume "c \<in> set (map personId cs)"
    then obtain p where "p \<in> set cs" "c = personId p" by auto
    moreover from this have "p \<in> set (rows s)"
      using validateChildren_rows [OF c] by (simp add: list_all_iff)
    ultimately show "0 < c \<and> c < nextId s"
      using r by (simp add: list_all_iff)
  qed
  have 4: "c_childrenIds dto = None \<or> c_childrenIds dto = Some [] \<longrightarrow> map personId cs = []"
    using c validateChildren_none [of "c_childrenIds dto" eng s] by auto
  from 1 2 3 4 n show ?thesis by (intro exI [of _ "map personId cs"] conjI)
qed


lemma acyclic_create:
  assumes "wf_store s" "refsBelow s" "acyclic (parentEdges s)"
      and safe: "(c_childrenIds dto = None \<or> c_childrenIds dto = Some [])
                 \<or> (\<not> truthyNum (c_fatherId dto) \<and> \<not> truthyNum (c_motherId dto))"
  shows "acyclic (parentEdges (snd (create eng dto s)))"
proof (cases "create eng dto s")
  case (Pair r s')
  show ?thesis
  proof (cases r)
    case (Inl e)
    with Pair have "s' = s" by (simp add: create_failure_unchanged)
    with Pair assms show ?thesis by simp
  next
    case (Inr new)
    define N where "N = nextId s"
    define ys where "ys = optList (c_fatherId dto) @ optList (c_motherId dto)"
    from Pair Inr have "create eng dto s = (Inr new, s')" by simp
    from create_edges [OF assms(1) this] obtain ids :: "int list" where
      e: "parentEdges s' \<subseteq> parentEdges s \<union> {N} \<times> set ys \<union> set ids \<times> {N}"
      and y: "\<forall>y \<in> set ys. 0 \<le> y \<and> y < N"
      and c: "\<forall>c \<in> set ids. 0 < c \<and> c < N"
      and nc: "c_childrenIds dto = None \<or> c_childrenIds dto = Some [] \<longrightarrow> ids = []"
      unfolding N_def ys_def by blast
    define E2 where "E2 = parentEdges s \<union> set ids \<times> {N}"
    have fresh: "findOneBy s N = None"
      unfolding N_def by (rule findOneBy_fresh [OF assms(1)])
    have "\<forall>c \<in> set ids. (N, c) \<notin> (parentEdges s)\<^sup>*"
    proof
      fix x assume "x \<in> set ids"
      then have "N \<noteq> x" using c by auto
      then show "(N, x) \<notin> (parentEdges s)\<^sup>*"
        by (simp add: no_path_from_absent [OF fresh])
    qed
    with assms(3) have a1: "acyclic E2"
      unfolding E2_def by (rule acyclic_in_edges)
    have "\<forall>y \<in> set ys. (y, N) \<notin> E2\<^sup>*"
    proof
      fix x assume x: "x \<in> set ys"
      then have xN: "x \<noteq> N" using y by auto
      from safe show "(x, N) \<notin> E2\<^sup>*"
      proof
        assume "c_childrenIds dto = None \<or> c_childrenIds dto = Some []"
        then have "ids = []" using nc by simp
        then have E: "E2 = parentEdges s" by (simp add: E2_def)
        have "(a, N) \<notin> parentEdges s" for a
          using refsBelowD [OF assms(2), of a N] by (auto simp: N_def)
        then have "(x, N) \<in> (parentEdges s)\<^sup>* \<longleftrightarrow> x = N"
          by (rule no_path_without_in_edge)
        then show ?thesis using xN E by simp
      next
        assume "\<not> truthyNum (c_fatherId dto) \<and> \<not> truthyNum (c_motherId dto)"
        then have x0: "x = 0"
          using x by (cases "c_fatherId dto"; cases "c_motherId dto")
                     (auto simp: ys_def optList_def)
        have "(0, b) \<notin> parentEdges s" for b
          by (rule no_edge_from_absent [OF findOneBy_zero [OF assms(1)]])
        moreover have "0 \<notin> set ids" using c by auto
        ultimately have "(0, b) \<notin> E2" for b
          by (simp add: E2_def)
        then have "(0, N) \<in> E2\<^sup>* \<longleftrightarrow> 0 = N"
          by (rule no_path_without_out_edge)
        then show ?thesis using xN x0 by simp
      qed
    qed
    with a1 have "acyclic (E2 \<union> {N} \<times> set ys)"
      by (rule acyclic_out_edges)
    moreover have "parentEdges s' \<subseteq> E2 \<union> {N} \<times> set ys"
      using e unfolding E2_def by blast
    ultimately have "acyclic (parentEdges s')" by (rule acyclic_subset)
    with Pair show ?thesis by simp
  qed
qed

lemma updatePerson_edges:
  assumes "wf_store s" "updatePerson eng i dto s = (Inr new, s')"
  shows "parentEdges s' \<subseteq> parentEdges s
            \<union> {i} \<times> set (valueList (u_fatherId dto) @ valueList (u_motherId dto))
       \<and> (\<forall>y \<in> set (valueList (u_fatherId dto) @ valueList (u_motherId dto)).
              y \<noteq> i \<and> \<not> wouldCreateAncestryCycle s i y \<and> 0 \<le> y \<and> y < nextId s)
       \<and> nextId s' = nextId s"
proof -
  define ys where "ys = valueList (u_fatherId dto) @ valueList (u_motherId dto)"
  obtain X where
    p: "findOneBy s i = Some X"
    and v: "(if truthyNullable (u_fatherId dto) \<or> truthyNullable (u_motherId dto)
             then validateParents s (coalesce (u_fatherId dto) None)
                    (coalesce (u_motherId dto) None)
             else Inr ()) = Inr ()"
    and c: "u_fatherId dto \<noteq> Value i" "u_motherId dto \<noteq> Value i"
    and k: "andThen (cycleCheck s X (u_fatherId dto)) (cycleCheck s X (u_motherId dto)) = Inr ()"
    and s': "s' = saveExisting (objectAssign X dto) s"
    using assms(2)
    by (auto simp: updatePerson_def findPersonById_def Let_def
             split: sum.splits if_splits option.splits)
  have X: "personId X = i" "X \<in> set (rows s)"
    using p by (simp_all add: findOneBy_in_rows)
  have ncyc: "\<forall>y \<in> set ys. \<not> wouldCreateAncestryCycle s i y"
    using k X(1)
    by (cases "u_fatherId dto"; cases "u_motherId dto")
       (auto simp: ys_def valueList_def cycleCheck_def andThen_Inr split: if_splits)
  have ne: "\<forall>y \<in> set ys. y \<noteq> i"
    using c by (cases "u_fatherId dto"; cases "u_motherId dto") (auto simp: ys_def valueList_def)
  have ys_opt: "set ys = set_option (coalesce (u_fatherId dto) None)
                          \<union> set_option (coalesce (u_motherId dto) None)"
    by (cases "u_fatherId dto"; cases "u_motherId dto") (auto simp: ys_def valueList_def)
  have rng: "\<forall>y \<in> set ys. 0 \<le> y \<and> y < nextId s"
  proof (cases "truthyNullable (u_fatherId dto) \<or> truthyNullable (u_motherId dto)")
    case True
    then have "validateParents s (coalesce (u_fatherId dto) None)
                 (coalesce (u_motherId dto) None) = Inr ()"
      using v by simp
    from validateParents_ok_refs [OF assms(1) this] show ?thesis
      unfolding ys_opt by auto
  next
    case False
    then have "set ys \<subseteq> {0}"
      by (cases "u_fatherId dto"; cases "u_motherId dto") (auto simp: ys_def valueList_def)
    then show ?thesis
      using assms(1) by (auto simp: wf_store_def)
  qed
  have oldf: "fatherId X = Some f \<Longrightarrow> (i, f) \<in> parentEdges s" for f
    unfolding parentEdges_iff using X by blast
  have oldm: "motherId X = Some f \<Longrightarrow> (i, f) \<in> parentEdges s" for f
    unfolding parentEdges_iff using X by blast
  have nf: "fatherId (objectAssign X dto) = Some f
              \<Longrightarrow> (i, f) \<in> parentEdges s \<union> {i} \<times> set ys" for f
    using oldf [of f]
    by (cases "u_fatherId dto") (simp_all add: objectAssign_def ys_def valueList_def)
  have nm: "motherId (objectAssign X dto) = Some f
              \<Longrightarrow> (i, f) \<in> parentEdges s \<union> {i} \<times> set ys" for f
    using oldm [of f]
    by (cases "u_motherId dto") (simp_all add: objectAssign_def ys_def valueList_def)
  have "parentEdges s' \<subseteq> parentEdges s \<union> {i} \<times> set ys"
  proof
    fix e assume "e \<in> parentEdges s'"
    then have "e \<in> parentEdges s
               \<or> e \<in> {personId (objectAssign X dto)}
                      \<times> (set_option (fatherId (objectAssign X dto))
                          \<union> set_option (motherId (objectAssign X dto)))"
      unfolding s' using parentEdges_saveExisting [of "objectAssign X dto" s] by blast
    then show "e \<in> parentEdges s \<union> {i} \<times> set ys"
    proof
      assume "e \<in> parentEdges s"
      then show ?thesis by simp
    next
      assume "e \<in> {personId (objectAssign X dto)}
                      \<times> (set_option (fatherId (objectAssign X dto))
                          \<union> set_option (motherId (objectAssign X dto)))"
      then obtain f where "e = (i, f)"
          "fatherId (objectAssign X dto) = Some f \<or> motherId (objectAssign X dto) = Some f"
        using X(1) by (auto elim!: option.set_cases)
      then show ?thesis using nf nm by blast
    qed
  qed
  moreover have "nextId s' = nextId s"
    unfolding s' by (simp add: saveExisting_def)
  ultimately show ?thesis
    using ncyc ne rng unfolding ys_def by simp
qed

lemma acyclic_updatePerson:
  assumes "wf_store s" "acyclic (parentEdges s)"
  shows "acyclic (parentEdges (snd (updatePerson eng i dto s)))"
proof (cases "updatePerson eng i dto s")
  case (Pair r s')
  show ?thesis
  proof (cases r)
    case (Inl e)
    with Pair have "s' = s" by (simp add: updatePerson_failure_unchanged)
    with Pair assms show ?thesis by simp
  next
    case (Inr new)
    define ys where "ys = valueList (u_fatherId dto) @ valueList (u_motherId dto)"
    from Pair Inr have "updatePerson eng i dto s = (Inr new, s')" by simp
    from updatePerson_edges [OF assms(1) this]
    have e: "parentEdges s' \<subseteq> parentEdges s \<union> {i} \<times> set ys"
      and y: "\<forall>y \<in> set ys. y \<noteq> i \<and> \<not> wouldCreateAncestryCycle s i y"
      unfolding ys_def by simp_all
    have "\<forall>y \<in> set ys. (y, i) \<notin> (parentEdges s)\<^sup>*"
    proof
      fix x assume m: "x \<in> set ys"
      then have "\<not> wouldCreateAncestryCycle s i x"
        using y by simp
      then have "(x, i) \<notin> (parentEdges s)\<^sup>+"
        by (rule detector_complete [OF assms(1)])
      moreover have "x \<noteq> i"
        using y m by simp
      ultimately show "(x, i) \<notin> (parentEdges s)\<^sup>*"
        by (rule not_rtrancl [rotated])
    qed
    with assms(2) have "acyclic (parentEdges s \<union> {i} \<times> set ys)"
      by (rule acyclic_out_edges)
    then have "acyclic (parentEdges s')" using e by (rule acyclic_subset)
    with Pair show ?thesis by simp
  qed
qed

lemma refsBelow_create:
  assumes "wf_store s" "refsBelow s"
  shows "refsBelow (snd (create eng dto s))"
proof (cases "create eng dto s")
  case (Pair r s')
  show ?thesis
  proof (cases r)
    case (Inl e)
    with Pair have "s' = s" by (simp add: create_failure_unchanged)
    with Pair assms show ?thesis by simp
  next
    case (Inr new)
    define ys where "ys = optList (c_fatherId dto) @ optList (c_motherId dto)"
    from Pair Inr have "create eng dto s = (Inr new, s')" by simp
    from create_edges [OF assms(1) this] obtain ids :: "int list" where
      e: "parentEdges s' \<subseteq> parentEdges s \<union> {nextId s} \<times> set ys \<union> set ids \<times> {nextId s}"
      and y: "\<forall>y \<in> set ys. 0 \<le> y \<and> y < nextId s"
      and n: "nextId s' = nextId s + 1"
      unfolding ys_def by blast
    have 1: "parentEdges s' \<subseteq> parentEdges s \<union> UNIV \<times> (set ys \<union> {nextId s})"
      using e by blast
    have 2: "\<forall>b \<in> set ys \<union> {nextId s}. b < nextId s'"
      using y n by auto
    have 3: "nextId s \<le> nextId s'"
      using n by simp
    have "refsBelow s'"
      by (rule refsBelow_grow [OF assms(2) 3 1 2])
    with Pair show ?thesis by simp
  qed
qed

lemma refsBelow_updatePerson:
  assumes "wf_store s" "refsBelow s"
  shows "refsBelow (snd (updatePerson eng i dto s))"
proof (cases "updatePerson eng i dto s")
  case (Pair r s')
  show ?thesis
  proof (cases r)
    case (Inl e)
    with Pair have "s' = s" by (simp add: updatePerson_failure_unchanged)
    with Pair assms show ?thesis by simp
  next
    case (Inr new)
    define ys where "ys = valueList (u_fatherId dto) @ valueList (u_motherId dto)"
    from Pair Inr have "updatePerson eng i dto s = (Inr new, s')" by simp
    from updatePerson_edges [OF assms(1) this]
    have e: "parentEdges s' \<subseteq> parentEdges s \<union> {i} \<times> set ys"
      and y: "\<forall>y \<in> set ys. y < nextId s"
      and n: "nextId s' = nextId s"
      unfolding ys_def by simp_all
    have 1: "nextId s \<le> nextId s'" using n by simp
    have 2: "\<forall>b \<in> set ys. b < nextId s'" using y n by simp
    have "refsBelow s'"
      by (rule refsBelow_grow [OF assms(2) 1 e 2])
    with Pair show ?thesis by simp
  qed
qed

lemma refsBelow_linkChildrenToParent:
  assumes "wf_store s" "refsBelow s"
  shows "refsBelow (snd (linkChildrenToParent eng i cs r s))"
proof (cases "linkChildrenToParent eng i cs r s")
  case (Pair res s')
  show ?thesis
  proof (cases res)
    case (Inl e)
    with Pair have "s' = s" by (simp add: linkChildrenToParent_failure_unchanged)
    with Pair assms show ?thesis by simp
  next
    case (Inr k)
    then obtain parent children where
      p: "findOneBy s i = Some parent"
      and s': "s' = linkChildrenToParentInternal parent children s"
      using Pair by (auto simp: linkChildrenToParent_def split: option.splits sum.splits if_splits)
    have P: "personId parent = i"
      using p by (simp add: findOneBy_in_rows)
    have e: "parentEdges s' \<subseteq> parentEdges s \<union> (personId ` set children) \<times> {i}"
      unfolding s' using parentEdges_link [of parent children s] P by simp
    have 1: "nextId s \<le> nextId s'" unfolding s' by (simp add: nextId_link)
    have 2: "\<forall>b \<in> {i}. b < nextId s'"
      unfolding s' using findOneBy_wf [OF assms(1) p] by (simp add: nextId_link)
    have "refsBelow s'"
      by (rule refsBelow_grow [OF assms(2) 1 e 2])
    with Pair show ?thesis by simp
  qed
qed

lemma refsBelow_removePerson:
  assumes "refsBelow s"
  shows "refsBelow (snd (removePerson i s))"
proof -
  have 1: "parentEdges (snd (removePerson i s)) \<subseteq> parentEdges s \<union> {} \<times> {}"
    using parentEdges_removeRow by (auto simp: removePerson_def split: sum.splits)
  have 2: "nextId s \<le> nextId (snd (removePerson i s))"
    by (auto simp: removePerson_def removeRow_def split: sum.splits)
  have 3: "\<forall>b \<in> {}. b < nextId (snd (removePerson i s))"
    by simp
  show ?thesis
    by (rule refsBelow_grow [OF assms 2 1 3])
qed

lemma refsBelow_promoteAncestor:
  assumes "wf_store s" "refsBelow s"
  shows "refsBelow (snd (promoteAncestor flt dto s))"
proof -
  obtain r s' where p: "promoteAncestor flt dto s = (r, s')"
    by (cases "promoteAncestor flt dto s")
  show ?thesis
  proof (cases r)
    case (Inl e)
    with p assms show ?thesis using promoteAncestor_failure [of flt dto s e s'] by simp
  next
    case (Inr new)
    then have s': "s' = updateById (a_currentProgenitorId dto)
                        (demote (a_relationship dto) (nextId s)) (snd (saveNew (ancestorOf dto) s))"
      using p promoteAncestor_cases [of flt dto s new s'] by auto
    have n: "nextId s' = nextId s + 1"
      unfolding s' by (simp add: nextId_updateById saveNew_def Let_def)
    have 1: "parentEdges s' \<subseteq> parentEdges s \<union> {a_currentProgenitorId dto} \<times> {nextId s}"
      unfolding s' using parentEdges_promote [of "a_currentProgenitorId dto"] by auto
    have 2: "nextId s \<le> nextId s'" using n by simp
    have 3: "\<forall>b \<in> {nextId s}. b < nextId s'" using n by simp
    have "refsBelow s'"
      by (rule refsBelow_grow [OF assms(2) 2 1 3])
    with p show ?thesis by simp
  qed
qed

text \<open>Every guarded mutation takes a well-formed, acyclic table whose references are in
  range to a table of the same kind.\<close>

lemma soundStore_commit:
  assumes "soundStore s" "guarded m"
  shows "soundStore (commit eng m s)"
proof -
  have w: "wf_store s" and r: "refsBelow s" and a: "acyclic (parentEdges s)"
    using assms(1) by (simp_all add: soundStore_def)
  have "refsBelow (commit eng m s)"
    using w r
    by (cases m) (simp_all add: refsBelow_create refsBelow_updatePerson
                     refsBelow_linkChildrenToParent refsBelow_removePerson
                     refsBelow_promoteAncestor)
  moreover have "acyclic (parentEdges (commit eng m s))"
    using w r a assms(2)
    by (cases m) (simp_all add: acyclic_create acyclic_updatePerson
                     acyclic_linkChildrenToParent acyclic_removePerson
                     acyclic_promoteAncestor)
  ultimately show ?thesis
    using w by (simp add: soundStore_def wf_commit)
qed

lemma soundStore_fold:
  "soundStore s \<Longrightarrow> list_all guarded ms \<Longrightarrow> soundStore (fold (commit eng) ms s)"
  by (induction ms arbitrary: s) (simp_all add: soundStore_commit)

lemma create_closingDto:
  "create eng closingDto fatherAndSon
     = (Inr ((person 3 Male)\<lparr>firstName := ''New'', lastName := ''Person'',
                             fatherId := Some 2\<rparr>),
        \<lparr>rows = [(person 1 Male)\<lparr>progenitor := True, fatherId := Some 3\<rparr>,
                 (person 2 Male)\<lparr>fatherId := Some 1\<rparr>,
                 (person 3 Male)\<lparr>firstName := ''New'', lastName := ''Person'',
                                  fatherId := Some 2\<rparr>],
          nextId = 4\<rparr>)"
  by (simp add: create_def closingDto_def blankDto_def fatherAndSon_def person_def
                validateNotOrphan_def validateParents_def validateParentDates_def
                validateChildren_def validateParentDatesForChildren_def findOneBy_def
                findBy_def saveNew_def entityOf_def linkChildrenToParentInternal_def
                updateById_def setParent_def Let_def)

text \<open>
  C2 at a failing input. The table is acyclic: person 2 is the son of person 1. A \<open>create\<close>
  of a man with \<^verbatim>\<open>fatherId: 2\<close> and \<^verbatim>\<open>childrenIds: [1]\<close> succeeds: the new person 3 is
  the son of 2 and the father of 1, so that 1 is reachable from itself along the parent
  edges 1 to 3, 3 to 2, 2 to 1. \<open>create\<close> never calls the cycle detector. Every other
  mutation, and a creation that does not supply both a parent and children, keeps the
  ancestry acyclic (\<open>soundStore_commit\<close>).
\<close>

theorem create_closes_cycle:
  "wf_store fatherAndSon
   \<and> parentEdges fatherAndSon = {(2, 1)} \<and> acyclic (parentEdges fatherAndSon)
   \<and> isl (fst (create utcEngine closingDto fatherAndSon)) = False
   \<and> parentEdges (snd (create utcEngine closingDto fatherAndSon)) = {(1, 3), (2, 1), (3, 2)}
   \<and> (1, 1) \<in> (parentEdges (snd (create utcEngine closingDto fatherAndSon)))\<^sup>+
   \<and> \<not> acyclic (parentEdges (snd (create utcEngine closingDto fatherAndSon)))"
proof -
  have w: "wf_store fatherAndSon"
    by (simp add: wf_store_def fatherAndSon_def person_def)
  have e: "parentEdges fatherAndSon = {(2, 1)}"
    by (simp add: parentEdges_def fatherAndSon_def person_def)
  have "acyclic ({} :: (int \<times> int) set)"
    by (simp add: acyclic_def)
  then have a: "acyclic (parentEdges fatherAndSon)"
    unfolding e by simp
  have e': "parentEdges (snd (create utcEngine closingDto fatherAndSon)) = {(1, 3), (2, 1), (3, 2)}"
    unfolding create_closingDto by (auto simp: parentEdges_def person_def)
  have "(1, 3) \<in> {(1, 3), (2, 1), (3, 2::int)} \<and> (3, 2) \<in> {(1, 3), (2, 1), (3, 2::int)}
        \<and> (2, 1) \<in> {(1, 3), (2, 1), (3::int, 2::int)}"
    by simp
  then have t: "(1::int, 1::int) \<in> {(1, 3), (2, 1), (3, 2)}\<^sup>+"
    by (meson trancl.r_into_trancl trancl_trans)
  then have n: "\<not> acyclic {(1::int, 3::int), (2, 1), (3, 2)}"
    by (auto simp: acyclic_def)
  show ?thesis
    using w e a t n unfolding e' by (simp add: create_closingDto)
qed

subsection \<open>Single progenitor\<close>

lemma filter_map_le:
  "(\<And>x. x \<in> set xs \<Longrightarrow> P (g x) \<Longrightarrow> P x)
     \<Longrightarrow> length (filter P (map g xs)) \<le> length (filter P xs)"
  by (induction xs) auto

lemma filter_map_none:
  "(\<And>x. x \<in> set xs \<Longrightarrow> \<not> P (g x)) \<Longrightarrow> filter P (map g xs) = []"
  by (induction xs) auto

lemma filter_filter_le: "length (filter P (filter Q xs)) \<le> length (filter P xs)"
  by (induction xs) auto

lemma progenitor_setParent: "progenitor (setParent g n r) = progenitor r"
  by (simp add: setParent_def)

lemma progenitors_updateById_setParent:
  "filter progenitor (rows (updateById i (setParent g n) s))
     = map (\<lambda>r. if personId r = i then setParent g n r else r) (filter progenitor (rows s))"
  by (simp add: updateById_def filter_map comp_def progenitor_setParent cong: filter_cong)

lemma count_link:
  "length (filter progenitor (rows (linkChildrenToParentInternal parent cs s)))
     = length (filter progenitor (rows s))"
  unfolding linkChildrenToParentInternal_def
  by (induction cs arbitrary: s) (simp_all add: progenitors_updateById_setParent)

lemma single_linkChildrenToParent:
  "singleProgenitor s \<Longrightarrow> singleProgenitor (snd (linkChildrenToParent eng i cs r s))"
  by (auto simp: singleProgenitor_def linkChildrenToParent_def count_link
           split: option.splits sum.splits)

lemma single_removePerson:
  "singleProgenitor s \<Longrightarrow> singleProgenitor (snd (removePerson i s))"
proof -
  assume a: "singleProgenitor s"
  have "length (filter progenitor (rows (removeRow p s))) \<le> 1" for p
    using a filter_filter_le [of progenitor "\<lambda>r. personId r \<noteq> personId p" "rows s"]
    by (simp add: singleProgenitor_def removeRow_def)
  then show ?thesis
    using a by (simp add: singleProgenitor_def removePerson_def split: sum.splits)
qed

lemma single_create:
  assumes "singleProgenitor s" "c_progenitor dto \<noteq> Some True"
  shows "singleProgenitor (snd (create eng dto s))"
proof (cases "create eng dto s")
  case (Pair r s')
  show ?thesis
  proof (cases r)
    case (Inl e)
    with Pair have "s' = s" by (simp add: create_failure_unchanged)
    with Pair assms show ?thesis by simp
  next
    case (Inr new)
    then obtain dto' cs s1 where
      o: "validateNotOrphan s dto = Inr dto'"
      and n: "saveNew (entityOf dto') s = (new, s1)"
      and s': "s' = (if length cs > 0 then linkChildrenToParentInternal new cs s1 else s1)"
      using Pair by (auto simp: create_def split: sum.splits prod.splits)
    have c: "length (filter progenitor (rows s')) = length (filter progenitor (rows s1))"
      unfolding s' by (simp add: count_link)
    have "c_progenitor dto' = Some True \<longrightarrow> rows s = []"
      using o assms(2) by (auto simp: validateNotOrphan_cases split: if_splits)
    then have "length (filter progenitor (rows s1)) \<le> 1"
      using n assms(1)
      by (auto simp: saveNew_def Let_def entityOf_def singleProgenitor_def split: option.splits)
    with c Pair show ?thesis by (simp add: singleProgenitor_def)
  qed
qed

lemma single_updatePerson:
  assumes "wf_store s" "singleProgenitor s" "u_progenitor dto \<noteq> Some True"
  shows "singleProgenitor (snd (updatePerson eng i dto s))"
proof (cases "updatePerson eng i dto s")
  case (Pair r s')
  show ?thesis
  proof (cases r)
    case (Inl e)
    with Pair have "s' = s" by (simp add: updatePerson_failure_unchanged)
    with Pair assms show ?thesis by simp
  next
    case (Inr new)
    then obtain X where
      p: "findOneBy s i = Some X"
      and s': "s' = saveExisting (objectAssign X dto) s"
      using Pair
      by (auto simp: updatePerson_def findPersonById_def Let_def
               split: sum.splits if_splits option.splits)
    have k: "progenitor (objectAssign X dto) \<Longrightarrow> progenitor X"
      using assms(3) by (cases "u_progenitor dto") (auto simp: objectAssign_def)
    let ?g = "\<lambda>r. if personId r = personId (objectAssign X dto) then objectAssign X dto else r"
    have "progenitor x" if "x \<in> set (rows s)" "progenitor (?g x)" for x
    proof (cases "personId x = i")
      case True
      then have "findOneBy s i = Some x"
        using findOneBy_row [OF assms(1) that(1)] by simp
      then have "x = X" using p by simp
      then show ?thesis using that(2) True k p by (simp add: findOneBy_in_rows)
    next
      case False
      then show ?thesis using that(2) p by (simp add: findOneBy_in_rows)
    qed
    then have "length (filter progenitor (map ?g (rows s))) \<le> length (filter progenitor (rows s))"
      by (rule filter_map_le)
    moreover have "rows s' = map ?g (rows s)"
      unfolding s' by (simp add: saveExisting_def)
    ultimately have "length (filter progenitor (rows s')) \<le> length (filter progenitor (rows s))"
      by simp
    with assms(2) Pair show ?thesis by (simp add: singleProgenitor_def)
  qed
qed

lemma single_promoteAncestor:
  assumes "wf_store s" "singleProgenitor s"
  shows "singleProgenitor (snd (promoteAncestor flt dto s))"
proof -
  obtain r s' where p: "promoteAncestor flt dto s = (r, s')"
    by (cases "promoteAncestor flt dto s")
  show ?thesis
  proof (cases r)
    case (Inl e)
    with p assms show ?thesis using promoteAncestor_failure [of flt dto s e s'] by simp
  next
    case (Inr new)
    then obtain cur where
      c: "findProgenitor s = Some cur" "personId cur = a_currentProgenitorId dto"
      and s': "s' = updateById (a_currentProgenitorId dto)
                        (demote (a_relationship dto) (nextId s)) (snd (saveNew (ancestorOf dto) s))"
      using p promoteAncestor_cases [of flt dto s new s'] by auto
    let ?g = "\<lambda>r. if personId r = a_currentProgenitorId dto
                   then demote (a_relationship dto) (nextId s) r else r"
    have cur: "cur \<in> set (filter progenitor (rows s))"
      using findProgenitor_in_rows [OF c(1)] by simp
    then have only: "filter progenitor (rows s) = [cur]"
      using assms(2) unfolding singleProgenitor_def
      by (cases "filter progenitor (rows s)") auto
    have "\<not> progenitor (?g x)" if "x \<in> set (rows s)" for x
    proof (cases "personId x = a_currentProgenitorId dto")
      case True
      then show ?thesis by (simp add: demote_def)
    next
      case False
      have "progenitor x \<Longrightarrow> x \<in> set (filter progenitor (rows s))"
        using that by simp
      then have "progenitor x \<Longrightarrow> x = cur" unfolding only by simp
      then show ?thesis using False c(2) by auto
    qed
    then have none: "filter progenitor (map ?g (rows s)) = []"
      by (rule filter_map_none)
    have "rows s' = map ?g (rows s) @ [?g ((ancestorOf dto)\<lparr>personId := nextId s\<rparr>)]"
      unfolding s' by (simp add: updateById_def saveNew_def Let_def)
    then have "length (filter progenitor (rows s')) \<le> 1"
      using none by simp
    with p show ?thesis by (simp add: singleProgenitor_def)
  qed
qed

text \<open>Every mutation that does not carry the progenitor flag keeps the progenitor single.\<close>

lemma singleProgenitor_commit:
  assumes "wf_store s" "singleProgenitor s" "\<not> flagging m"
  shows "singleProgenitor (commit eng m s)"
  using assms
  by (cases m) (simp_all add: single_create single_updatePerson single_linkChildrenToParent
                   single_removePerson single_promoteAncestor)

text \<open>
  C1 at a failing input. The table holds one progenitor, person 1. A \<open>create\<close> with
  \<^verbatim>\<open>progenitor: true\<close> succeeds and leaves two progenitors, 1 and 3; so does an update of
  person 2 with \<^verbatim>\<open>progenitor: true\<close>, which leaves 1 and 2. Neither path looks for an
  existing progenitor. Every mutation whose payload does not carry the flag keeps the
  progenitor single (\<open>singleProgenitor_commit\<close>).
\<close>

theorem create_second_progenitor:
  "wf_store fatherAndSon
   \<and> map personId (filter progenitor (rows fatherAndSon)) = [1]
   \<and> isl (fst (create utcEngine secondRoot fatherAndSon)) = False
   \<and> map personId (filter progenitor (rows (snd (create utcEngine secondRoot fatherAndSon)))) = [1, 3]
   \<and> isl (fst (updatePerson utcEngine 2 (blankPatch\<lparr>u_progenitor := Some True\<rparr>) fatherAndSon)) = False
   \<and> map personId (filter progenitor
        (rows (snd (updatePerson utcEngine 2 (blankPatch\<lparr>u_progenitor := Some True\<rparr>) fatherAndSon))))
       = [1, 2]"
  by (simp add: wf_store_def create_def updatePerson_def findPersonById_def secondRoot_def
                blankDto_def blankPatch_def fatherAndSon_def person_def validateNotOrphan_def
                validateParents_def validateParentDates_def validateChildren_def findOneBy_def
                saveNew_def saveExisting_def entityOf_def objectAssign_def cycleCheck_def
                Let_def)

end
